theory Spec2Isabelle
  imports
    Complex_Main
    "HOL-Library.Char_ord"
    "HOL-Library.List_Lexorder"
    "HOL-Library.Sublist"
begin

section \<open>The Stranger's Ledger: a shallow embedding of \<^verbatim>\<open>app.py\<close>\<close>

text \<open>
  The program is a Streamlit script: every interaction runs the script from top to
  bottom. It loads a list of book records from \<^verbatim>\<open>books_db.json\<close>, renders four tabs
  and, when a button was pressed, runs that button's handler, which mutates the list in
  memory and overwrites the file.

  A record is a Python \<^verbatim>\<open>Dict[str, Any]\<close> read from JSON, so a field can hold any JSON
  value. The embedding keeps that: a record is a map from keys to values of the type
  \<open>pyval\<close>, and every operation that raises in Python on an ill-typed value returns an
  error here.

  The values the widgets return are inputs of the embedding, and so is the button that
  was pressed. What the script only draws (cards, captions of records, the defaults it
  passes to the widgets) is left out, so the embedding admits every press of a button
  that the script can see, and some that a failed drawing would have prevented.
\<close>

subsection \<open>Python values\<close>

text \<open>
  A float is a finite value (a double is a rational number) or one of the three special
  values that \<^verbatim>\<open>json.load\<close> accepts. Only truth value and truncation to an integer are
  taken of a float, and both are exact on the rational.
\<close>

datatype pyfloat = Finite rat | PosInf | NegInf | NaN

datatype pyval =
    PNone
  | PBool bool
  | PInt int
  | PFloat pyfloat
  | PStr string
  | PList "pyval list"
  | PDict "(string \<times> pyval) list"

datatype error = KeyError | TypeError | ValueError | OverflowError | AttributeError

type_synonym book = "string \<rightharpoonup> pyval"

text \<open>The truth value of an object, as \<^verbatim>\<open>if x\<close>, \<^verbatim>\<open>x or y\<close> and \<^verbatim>\<open>bool(x)\<close> take it.\<close>

fun truthy :: "pyval \<Rightarrow> bool" where
  "truthy PNone = False"
| "truthy (PBool b) = b"
| "truthy (PInt n) = (n \<noteq> 0)"
| "truthy (PFloat (Finite q)) = (q \<noteq> 0)"
| "truthy (PFloat _) = True"
| "truthy (PStr s) = (s \<noteq> [])"
| "truthy (PList xs) = (xs \<noteq> [])"
| "truthy (PDict kvs) = (kvs \<noteq> [])"

text \<open>\<^verbatim>\<open>x or y\<close>\<close>

definition py_or :: "pyval \<Rightarrow> pyval \<Rightarrow> pyval" where
  "py_or x y = (if truthy x then x else y)"

text \<open>\<^verbatim>\<open>d.get(k, default)\<close> and \<^verbatim>\<open>d[k]\<close>\<close>

definition get_or :: "book \<Rightarrow> string \<Rightarrow> pyval \<Rightarrow> pyval" where
  "get_or d k dflt = (case d k of None \<Rightarrow> dflt | Some v \<Rightarrow> v)"

definition item :: "book \<Rightarrow> string \<Rightarrow> error + pyval" where
  "item d k = (case d k of None \<Rightarrow> Inl KeyError | Some v \<Rightarrow> Inr v)"

subsection \<open>Strings\<close>

text \<open>
  A Python string is a sequence of code points. The embedding takes the code points
  below 256, one \<open>char\<close> each; \<open>is_space\<close> and \<open>lower_char\<close> are Python's
  \<^verbatim>\<open>str.isspace\<close> and \<^verbatim>\<open>str.lower\<close> on that range. Beyond it \<^verbatim>\<open>str.lower\<close> is no
  longer a map of single characters; it is given on code points in a section of its own
  below (\<open>cp_lower\<close>), and \<open>lower\<close> is its restriction to this range
  (\<open>cp_lower_chars\<close>).
\<close>

definition is_space :: "char \<Rightarrow> bool" where
  "is_space c =
     (let n = (of_char c :: nat)
      in (9 \<le> n \<and> n \<le> 13) \<or> (28 \<le> n \<and> n \<le> 32) \<or> n = 133 \<or> n = 160)"

definition lower_char :: "char \<Rightarrow> char" where
  "lower_char c =
     (let n = (of_char c :: nat)
      in if (65 \<le> n \<and> n \<le> 90) \<or> (192 \<le> n \<and> n \<le> 222 \<and> n \<noteq> 215)
         then char_of (n + 32) else c)"

definition lower :: "string \<Rightarrow> string" where
  "lower s = map lower_char s"

definition strip :: "string \<Rightarrow> string" where
  "strip s = rev (dropWhile is_space (rev (dropWhile is_space s)))"

text \<open>\<^verbatim>\<open>s.split(",")\<close>: never empty, one more part than there are commas.\<close>

fun split_comma :: "string \<Rightarrow> string list" where
  "split_comma [] = [[]]"
| "split_comma (c # cs) =
     (if c = CHR '','' then [] # split_comma cs
      else (case split_comma cs of
              [] \<Rightarrow> [[c]]
            | w # ws \<Rightarrow> (c # w) # ws))"

text \<open>\<^verbatim>\<open>sep.join(parts)\<close>\<close>

fun join :: "string \<Rightarrow> string list \<Rightarrow> string" where
  "join sep [] = []"
| "join sep [x] = x"
| "join sep (x # y # ys) = x @ sep @ join sep (y # ys)"

text \<open>\<^verbatim>\<open>[t.strip() for t in s.split(",") if t.strip()]\<close>, the tag list of a text input.\<close>

definition split_tags :: "string \<Rightarrow> string list" where
  "split_tags s = filter (\<lambda>t. t \<noteq> []) (map strip (split_comma s))"

subsection \<open>Conversion to an integer\<close>

text \<open>
  \<^verbatim>\<open>int(x)\<close>. On a string: surrounding white space is dropped, then an optional sign and
  decimal digits, where single underscores may stand between digits. The white space
  \<^verbatim>\<open>int\<close> drops is that of \<^verbatim>\<open>str.isspace\<close> without the four separators 0x1C to 0x1F:
  \<^verbatim>\<open>int("\x1c50")\<close> raises \<^verbatim>\<open>ValueError\<close>. A string of more than 4300 digits raises
  \<^verbatim>\<open>ValueError\<close> too: that is the interpreter's limit as it is set by default
  (\<^verbatim>\<open>sys.get_int_max_str_digits()\<close>). No statement below rests on a string being
  converted.
\<close>

definition int_space :: "char \<Rightarrow> bool" where
  "int_space c =
     (let n = (of_char c :: nat)
      in (9 \<le> n \<and> n \<le> 13) \<or> n = 32 \<or> n = 133 \<or> n = 160)"

definition strip_int :: "string \<Rightarrow> string" where
  "strip_int s = rev (dropWhile int_space (rev (dropWhile int_space s)))"

definition is_digit :: "char \<Rightarrow> bool" where
  "is_digit c = (let n = (of_char c :: nat) in 48 \<le> n \<and> n \<le> 57)"

definition digit_val :: "char \<Rightarrow> int" where
  "digit_val c = int (of_char c) - 48"

fun parse_digits :: "int \<Rightarrow> string \<Rightarrow> int option" where
  "parse_digits acc [] = Some acc"
| "parse_digits acc [c] = (if is_digit c then Some (acc * 10 + digit_val c) else None)"
| "parse_digits acc (c # d # cs) =
     (if is_digit c then parse_digits (acc * 10 + digit_val c) (d # cs)
      else if c = CHR ''_'' \<and> is_digit d then parse_digits acc (d # cs)
      else None)"

definition parse_unsigned :: "string \<Rightarrow> int option" where
  "parse_unsigned s =
     (case s of
        [] \<Rightarrow> None
      | c # cs \<Rightarrow> if is_digit c then parse_digits 0 s else None)"

definition int_of_str :: "string \<Rightarrow> error + int" where
  "int_of_str s =
     (let t = strip_int s;
          r = (case t of
                 [] \<Rightarrow> None
               | c # cs \<Rightarrow>
                   if c = CHR ''-'' then map_option uminus (parse_unsigned cs)
                   else if c = CHR ''+'' then parse_unsigned cs
                   else parse_unsigned t)
      in case r of
           None \<Rightarrow> Inl ValueError
         | Some n \<Rightarrow> if 4300 < length (filter is_digit t) then Inl ValueError else Inr n)"

text \<open>Truncation toward zero, as \<^verbatim>\<open>int\<close> of a finite float.\<close>

definition trunc :: "rat \<Rightarrow> int" where
  "trunc q = (if 0 \<le> q then \<lfloor>q\<rfloor> else \<lceil>q\<rceil>)"

fun py_int :: "pyval \<Rightarrow> error + int" where
  "py_int PNone = Inl TypeError"
| "py_int (PBool b) = Inr (if b then 1 else 0)"
| "py_int (PInt n) = Inr n"
| "py_int (PFloat (Finite q)) = Inr (trunc q)"
| "py_int (PFloat NaN) = Inl ValueError"
| "py_int (PFloat _) = Inl OverflowError"
| "py_int (PStr s) = int_of_str s"
| "py_int (PList xs) = Inl TypeError"
| "py_int (PDict kvs) = Inl TypeError"

subsection \<open>The record normalizer \<^verbatim>\<open>_ensure_defaults\<close>\<close>

text \<open>
  The identifier and the two clock readings of the \<^verbatim>\<open>defaults\<close> dictionary come
  from the environment (\<^verbatim>\<open>uuid.uuid4()\<close>, \<^verbatim>\<open>datetime.now()\<close>, read once for
  \<^verbatim>\<open>created_at\<close> and once more for \<^verbatim>\<open>updated_at\<close>); they are parameters here.
\<close>

definition defaults :: "string \<Rightarrow> string \<Rightarrow> string \<Rightarrow> book" where
  "defaults uid now_c now_u =
     [''id'' \<mapsto> PStr uid,
      ''title'' \<mapsto> PStr '''',
      ''author'' \<mapsto> PStr '''',
      ''status'' \<mapsto> PStr ''to_read'',
      ''progress'' \<mapsto> PInt 0,
      ''favorite'' \<mapsto> PBool False,
      ''tags'' \<mapsto> PList [],
      ''cover_path'' \<mapsto> PNone,
      ''rating'' \<mapsto> PNone,
      ''notes'' \<mapsto> PStr '''',
      ''created_at'' \<mapsto> PStr now_c,
      ''updated_at'' \<mapsto> PStr now_u]"

text \<open>
  \<^verbatim>\<open>for t in v\<close>: a list gives its elements, a string its characters, a dictionary its
  keys; nothing else can be iterated.
\<close>

fun py_iter :: "pyval \<Rightarrow> error + pyval list" where
  "py_iter (PList xs) = Inr xs"
| "py_iter (PStr s) = Inr (map (\<lambda>c. PStr [c]) s)"
| "py_iter (PDict kvs) = Inr (map (\<lambda>kv. PStr (fst kv)) kvs)"
| "py_iter _ = Inl TypeError"

text \<open>\<^verbatim>\<open>t.strip()\<close> for each element in turn; only a string has the method.\<close>

fun strip_each :: "pyval list \<Rightarrow> error + string list" where
  "strip_each [] = Inr []"
| "strip_each (PStr s # ts) =
     (case strip_each ts of Inl e \<Rightarrow> Inl e | Inr r \<Rightarrow> Inr (strip s # r))"
| "strip_each (_ # ts) = Inl AttributeError"

text \<open>
  \<^verbatim>\<open>sorted(list({t.strip() for t in v if t.strip()}))\<close>: the set holds each non-empty
  trimmed tag once, and sorting a list of distinct strings does not depend on the order
  in which the set gave them.
\<close>

definition norm_tags :: "pyval \<Rightarrow> error + string list" where
  "norm_tags v =
     (case py_iter v of
        Inl e \<Rightarrow> Inl e
      | Inr ts \<Rightarrow>
          (case strip_each ts of
             Inl e \<Rightarrow> Inl e
           | Inr ss \<Rightarrow> Inr (sort (remdups (filter (\<lambda>t. t \<noteq> []) ss)))))"

text \<open>\<^verbatim>\<open>max(0, min(100, int(v or 0)))\<close>\<close>

definition norm_progress :: "pyval \<Rightarrow> error + int" where
  "norm_progress v =
     (case py_int (py_or v (PInt 0)) of
        Inl e \<Rightarrow> Inl e
      | Inr n \<Rightarrow> Inr (max 0 (min 100 n)))"

definition ensure_defaults :: "string \<Rightarrow> string \<Rightarrow> string \<Rightarrow> book \<Rightarrow> error + book" where
  "ensure_defaults uid now_c now_u bk =
     (let merged = defaults uid now_c now_u ++ bk
      in case norm_tags (get_or merged ''tags'' (PList [])) of
           Inl e \<Rightarrow> Inl e
         | Inr ts \<Rightarrow>
             (let merged = merged(''tags'' \<mapsto> PList (map PStr ts))
              in case norm_progress (get_or merged ''progress'' (PInt 0)) of
                   Inl e \<Rightarrow> Inl e
                 | Inr p \<Rightarrow>
                     (let merged = merged(''progress'' \<mapsto> PInt p)
                      in Inr (if 100 \<le> p then merged(''status'' \<mapsto> PStr ''read'')
                              else merged))))"

subsection \<open>Sequencing of calls that may raise\<close>

definition and_then :: "error + 'a \<Rightarrow> ('a \<Rightarrow> error + 'b) \<Rightarrow> error + 'b" where
  "and_then r f = (case r of Inl e \<Rightarrow> Inl e | Inr x \<Rightarrow> f x)"

text \<open>\<^verbatim>\<open>[x for x in xs if p(x)]\<close> where the condition may raise.\<close>

fun filter_err :: "('a \<Rightarrow> error + bool) \<Rightarrow> 'a list \<Rightarrow> error + 'a list" where
  "filter_err p [] = Inr []"
| "filter_err p (x # xs) =
     (case p x of
        Inl e \<Rightarrow> Inl e
      | Inr keep \<Rightarrow>
          (case filter_err p xs of
             Inl e \<Rightarrow> Inl e
           | Inr r \<Rightarrow> Inr (if keep then x # r else r)))"

text \<open>\<^verbatim>\<open>[f(x) for x in xs]\<close> where \<^verbatim>\<open>f\<close> may raise.\<close>

fun map_err :: "('a \<Rightarrow> error + 'b) \<Rightarrow> 'a list \<Rightarrow> error + 'b list" where
  "map_err f [] = Inr []"
| "map_err f (x # xs) =
     (case f x of
        Inl e \<Rightarrow> Inl e
      | Inr y \<Rightarrow> (case map_err f xs of Inl e \<Rightarrow> Inl e | Inr ys \<Rightarrow> Inr (y # ys)))"

text \<open>\<^verbatim>\<open>b["status"] == s\<close>: only a string equals a string.\<close>

definition status_is :: "string \<Rightarrow> book \<Rightarrow> error + bool" where
  "status_is s b = (case item b ''status'' of Inl e \<Rightarrow> Inl e | Inr v \<Rightarrow> Inr (v = PStr s))"

subsection \<open>Session, files and the environment\<close>

text \<open>
  What a run shows on the page, what lives in the session (\<^verbatim>\<open>st.session_state.can_edit\<close>)
  and the two files the script writes: \<^verbatim>\<open>books_db.json\<close> (absent or unparsable is
  \<open>None\<close>) and the append-only \<^verbatim>\<open>reading_recommendations.txt\<close>. The directory of
  cover images is not part of the state. \<open>page\<close> holds the notices of the current run
  (their texts without the pictographs of the source), \<open>rerun\<close> whether the run was
  ended by \<^verbatim>\<open>st.experimental_rerun()\<close>.
\<close>

datatype msg =
    Success string | Error string | Info string | Warning string | Caption string
  | Markdown string

record state =
  can_edit :: bool
  data_file :: "book list option"
  reco_file :: "string list"
  page :: "msg list"
  rerun :: bool

text \<open>
  What the script reads from outside: the configured secret, identifiers and clock
  readings (one per place that draws one), the text-generation service (\<open>Inl\<close> the
  message of the exception it raised) and Python's formatting of a value in an f-string.
\<close>

record env =
  admin_pass :: "pyval option"
  uuid_form :: string
  now_form :: string
  uuid_dflt :: string
  now_created :: string
  now_updated :: string
  now_handler :: string
  invoke :: "string \<Rightarrow> string + string"
  fmt :: "pyval \<Rightarrow> string"

definition show_msg :: "msg \<Rightarrow> state \<Rightarrow> state" where
  "show_msg m st = st\<lparr>page := page st @ [m]\<rparr>"

definition load_db :: "state \<Rightarrow> book list" where
  "load_db st = (case data_file st of None \<Rightarrow> [] | Some d \<Rightarrow> d)"

definition save_db :: "book list \<Rightarrow> state \<Rightarrow> state" where
  "save_db d st = st\<lparr>data_file := Some d\<rparr>"

definition normalize :: "env \<Rightarrow> book \<Rightarrow> error + book" where
  "normalize ev bk = ensure_defaults (uuid_dflt ev) (now_created ev) (now_updated ev) bk"

fun find_by_id :: "book list \<Rightarrow> string \<Rightarrow> error + book option" where
  "find_by_id [] bid = Inr None"
| "find_by_id (x # xs) bid =
     (case item x ''id'' of
        Inl e \<Rightarrow> Inl e
      | Inr v \<Rightarrow> if v = PStr bid then Inr (Some x) else find_by_id xs bid)"

subsection \<open>Admin login\<close>

text \<open>
  \<^verbatim>\<open>if pwd and pwd == st.secrets.get("ADMIN_PASS", "")\<close>, run when the Login button
  was pressed; a session starts with \<^verbatim>\<open>can_edit = False\<close>.
\<close>

definition login :: "env \<Rightarrow> string \<Rightarrow> bool \<Rightarrow> state \<Rightarrow> state" where
  "login ev pwd login_btn st =
     (if login_btn then
        (if pwd \<noteq> [] \<and> PStr pwd = (case admin_pass ev of None \<Rightarrow> PStr [] | Some v \<Rightarrow> v)
         then show_msg (Success ''Admin mode enabled.'') (st\<lparr>can_edit := True\<rparr>)
         else show_msg (Error ''Wrong password.'') (st\<lparr>can_edit := False\<rparr>))
      else st)"

subsection \<open>The Add / Update form\<close>

text \<open>
  The values of the form's widgets at submission. \<open>f_selected\<close> is the identifier read
  out of the picked entry (\<open>None\<close> for a new record), \<open>f_cover\<close> the path under which an
  uploaded cover was stored, \<open>f_remove_cover\<close> whether the box to remove the current
  cover was shown and ticked. The slider gives an integer from 0 to 100, the rating
  input an integer from 1 to 10.
\<close>

record form =
  f_selected :: "string option"
  f_title :: string
  f_author :: string
  f_status :: string
  f_progress :: int
  f_favorite :: bool
  f_rating :: int
  f_tags :: string
  f_notes :: string
  f_cover :: "string option"
  f_remove_cover :: bool

text \<open>
  \<^verbatim>\<open>if selected_id:\<close> holds for a non-empty identifier. The record the form starts
  from is a copy of the selected one, or empty. (\<^verbatim>\<open>if cur:\<close> holds for every record
  found, which has the key \<^verbatim>\<open>id\<close>.)
\<close>

definition selected_id :: "form \<Rightarrow> string option" where
  "selected_id f =
     (case f_selected f of
        None \<Rightarrow> None
      | Some sid \<Rightarrow> if sid = [] then None else Some sid)"

definition form_init :: "book list \<Rightarrow> form \<Rightarrow> error + book" where
  "form_init db f =
     (case selected_id f of
        None \<Rightarrow> Inr Map.empty
      | Some sid \<Rightarrow>
          (case find_by_id db sid of
             Inl e \<Rightarrow> Inl e
           | Inr None \<Rightarrow> Inr Map.empty
           | Inr (Some cur) \<Rightarrow>
               Inr (if f_remove_cover f then cur(''cover_path'' \<mapsto> PNone) else cur)))"


text \<open>The dictionary \<^verbatim>\<open>book\<close> built from the widgets (lines 219 to 244).\<close>

definition form_book :: "env \<Rightarrow> book \<Rightarrow> form \<Rightarrow> book" where
  "form_book ev init f =
     (let book =
            [''id'' \<mapsto> get_or init ''id'' (PStr (uuid_form ev)),
             ''title'' \<mapsto> PStr (strip (f_title f)),
             ''author'' \<mapsto> PStr (strip (f_author f)),
             ''status'' \<mapsto> PStr (f_status f),
             ''progress'' \<mapsto> PInt (f_progress f),
             ''favorite'' \<mapsto> PBool (f_favorite f),
             ''rating'' \<mapsto> (if f_rating f \<noteq> 0 then PInt (f_rating f) else PNone),
             ''tags'' \<mapsto> PList (map PStr (split_tags (f_tags f))),
             ''notes'' \<mapsto> PStr (strip (f_notes f)),
             ''updated_at'' \<mapsto> PStr (now_form ev)];
          book = (case f_cover f of
                    Some save_path \<Rightarrow> book(''cover_path'' \<mapsto> PStr save_path)
                  | None \<Rightarrow>
                      if truthy (get_or init ''cover_path'' PNone)
                      then book(''cover_path'' \<mapsto> get_or init ''cover_path'' PNone)
                      else book)
      in if 100 \<le> f_progress f then book(''status'' \<mapsto> PStr ''read'') else book)"

text \<open>
  The loop that replaces the first record with the selected identifier by
  \<^verbatim>\<open>_ensure_defaults({**b, **book})\<close>.
\<close>

fun update_selected :: "env \<Rightarrow> string \<Rightarrow> book \<Rightarrow> book list \<Rightarrow> error + book list" where
  "update_selected ev sid book [] = Inr []"
| "update_selected ev sid book (b # bs) =
     (case item b ''id'' of
        Inl e \<Rightarrow> Inl e
      | Inr v \<Rightarrow>
          if v = PStr sid
          then (case normalize ev (b ++ book) of
                  Inl e \<Rightarrow> Inl e
                | Inr b' \<Rightarrow> Inr (b' # bs))
          else (case update_selected ev sid book bs of
                  Inl e \<Rightarrow> Inl e
                | Inr bs' \<Rightarrow> Inr (b # bs')))"

text \<open>
  The tab: view-only unless \<^verbatim>\<open>CAN_EDIT\<close>; \<open>fo\<close> holds the form when its Save button
  was pressed.
\<close>

definition tab_add ::
    "env \<Rightarrow> form option \<Rightarrow> book list \<Rightarrow> state \<Rightarrow> error + book list \<times> state" where
  "tab_add ev fo db st =
     (if \<not> can_edit st
      then Inr (db, show_msg (Info ''View-only mode. Login as admin to add or edit books.'') st)
      else
        (case fo of
           None \<Rightarrow> Inr (db, st)
         | Some f \<Rightarrow>
             (case form_init db f of
                Inl e \<Rightarrow> Inl e
              | Inr init \<Rightarrow>
                  if strip (f_title f) = []
                  then Inr (db, show_msg (Error ''Title is required.'') st)
                  else
                    (let book = form_book ev init f
                     in case selected_id f of
                          Some sid \<Rightarrow>
                            (case update_selected ev sid book db of
                               Inl e \<Rightarrow> Inl e
                             | Inr db' \<Rightarrow>
                                 Inr (db', save_db db'
                                             (show_msg (Success ''Record updated'') st)))
                        | None \<Rightarrow>
                            (case normalize ev book of
                               Inl e \<Rightarrow> Inl e
                             | Inr b' \<Rightarrow>
                                 Inr (db @ [b'],
                                      save_db (db @ [b'])
                                        (show_msg (Success ''New book added'') st)))))))"

subsection \<open>Currently Reading: the progress update\<close>

text \<open>Lines 274 to 277, on the record whose Update button was pressed.\<close>

definition set_progress :: "env \<Rightarrow> int \<Rightarrow> book \<Rightarrow> book" where
  "set_progress ev new_prog b =
     (let b = b(''progress'' \<mapsto> PInt new_prog);
          b = (if 100 \<le> new_prog then b(''status'' \<mapsto> PStr ''read'') else b)
      in b(''updated_at'' \<mapsto> PStr (now_handler ev)))"

text \<open>
  \<open>u\<close> holds the position \<open>i\<close> of the record whose Update button was pressed and the
  value of its slider (an integer from 0 to 100). The button exists when the record is
  listed, that is when its status is \<^verbatim>\<open>reading\<close>, and only for an admin. The records
  of the list are the objects of \<^verbatim>\<open>db\<close>, so the handler changes \<^verbatim>\<open>db\<close> at
  position \<open>i\<close>.
\<close>

definition tab_reading ::
    "env \<Rightarrow> (nat \<times> int) option \<Rightarrow> book list \<Rightarrow> state \<Rightarrow> error + book list \<times> state" where
  "tab_reading ev u db st =
     (case filter_err (status_is ''reading'') db of
        Inl e \<Rightarrow> Inl e
      | Inr reading \<Rightarrow>
          if reading = []
          then Inr (db, show_msg
                          (Info ''No books are marked as 'reading'. Use the Add/Update tab to set one.'')
                          st)
          else if \<not> can_edit st
          then Inr (db, show_msg (Caption ''Login as admin to update.'') st)
          else
            (case u of
               None \<Rightarrow> Inr (db, st)
             | Some (i, new_prog) \<Rightarrow>
                 if i < length db \<and> db ! i \<in> set reading
                 then (let db' = db[i := set_progress ev new_prog (db ! i)]
                       in Inr (db', show_msg (Success ''Updated!'') (save_db db' st)))
                 else Inr (db, st)))"

subsection \<open>Library: the filter\<close>

text \<open>\<^verbatim>\<open>v.lower()\<close>: only a string has the method.\<close>

definition py_lower :: "pyval \<Rightarrow> error + string" where
  "py_lower v = (case v of PStr s \<Rightarrow> Inr (lower s) | _ \<Rightarrow> Inl AttributeError)"

fun lower_each :: "pyval list \<Rightarrow> error + string list" where
  "lower_each [] = Inr []"
| "lower_each (PStr s # ts) =
     (case lower_each ts of Inl e \<Rightarrow> Inl e | Inr r \<Rightarrow> Inr (lower s # r))"
| "lower_each (_ # ts) = Inl AttributeError"

text \<open>
  \<^verbatim>\<open>qlow in b["title"].lower() or qlow in (b["author"] or "").lower()\<close>: the author
  is looked at only when the title does not match.
\<close>

definition text_match :: "string \<Rightarrow> book \<Rightarrow> error + bool" where
  "text_match qlow b =
     and_then (item b ''title'') (\<lambda>t.
     and_then (py_lower t) (\<lambda>tl.
       if sublist qlow tl then Inr True
       else and_then (item b ''author'') (\<lambda>a.
            and_then (py_lower (py_or a (PStr []))) (\<lambda>al. Inr (sublist qlow al)))))"

text \<open>\<^verbatim>\<open>wanted.issubset({t.lower() for t in b.get("tags", [])})\<close>\<close>

definition tags_match :: "string list \<Rightarrow> book \<Rightarrow> error + bool" where
  "tags_match wanted b =
     and_then (py_iter (get_or b ''tags'' (PList []))) (\<lambda>ts.
     and_then (lower_each ts) (\<lambda>ls. Inr (set wanted \<subseteq> set ls)))"

text \<open>
  Lines 293 to 303: four passes over the list, each applied only when its widget is
  set. \<open>wanted\<close> is \<^verbatim>\<open>{t.strip().lower() for t in tag_filter.split(",") if t.strip()}\<close>.
\<close>

definition library_filter ::
    "string \<Rightarrow> string \<Rightarrow> bool \<Rightarrow> string \<Rightarrow> book list \<Rightarrow> error + book list" where
  "library_filter q tag_filter fav_only status_pick db =
     and_then (if q \<noteq> [] then filter_err (text_match (lower (strip q))) db else Inr db)
       (\<lambda>filtered.
     and_then (if strip tag_filter \<noteq> []
               then filter_err (tags_match (map lower (split_tags tag_filter))) filtered
               else Inr filtered)
       (\<lambda>filtered.
     (let filtered = (if fav_only
                      then filter (\<lambda>b. truthy (get_or b ''favorite'' PNone)) filtered
                      else filtered)
      in if status_pick \<noteq> ''All'' then filter_err (status_is status_pick) filtered
         else Inr filtered)))"

subsection \<open>The text test of the filter on code points\<close>

text \<open>
  \<^verbatim>\<open>str.lower\<close> on a string of code points. Each code point goes to its lower-case
  mapping, but the capital sigma U+03A3 goes to the final small sigma U+03C2 when the
  nearest code point before it that is not case-ignorable is cased and the nearest one
  after it that is not case-ignorable is absent or not cased, and to the small sigma
  U+03C3 otherwise. The three tables are those of Unicode on Basic Latin, the Latin-1
  Supplement and the Greek letters U+0391 to U+03CE, where every lower-case mapping is a
  single code point; they say nothing on other code points. \<open>seen\<close> holds the code points
  before the current one, the nearest first.
\<close>

definition cp_to_lower :: "nat \<Rightarrow> nat" where
  "cp_to_lower n =
     (if (65 \<le> n \<and> n \<le> 90) \<or> (192 \<le> n \<and> n \<le> 222 \<and> n \<noteq> 215) \<or>
         (913 \<le> n \<and> n \<le> 929) \<or> (932 \<le> n \<and> n \<le> 939)
      then n + 32 else n)"

definition cp_cased :: "nat \<Rightarrow> bool" where
  "cp_cased n =
     ((65 \<le> n \<and> n \<le> 90) \<or> (97 \<le> n \<and> n \<le> 122) \<or> n = 170 \<or> n = 181 \<or> n = 186 \<or>
      (192 \<le> n \<and> n \<le> 214) \<or> (216 \<le> n \<and> n \<le> 246) \<or> (248 \<le> n \<and> n \<le> 255) \<or>
      (913 \<le> n \<and> n \<le> 929) \<or> (931 \<le> n \<and> n \<le> 974))"

definition cp_case_ignorable :: "nat \<Rightarrow> bool" where
  "cp_case_ignorable n = (n \<in> set [39, 46, 58, 94, 96, 168, 173, 175, 180, 183, 184])"

definition first_solid :: "nat list \<Rightarrow> nat option" where
  "first_solid cs = (case dropWhile cp_case_ignorable cs of [] \<Rightarrow> None | c # _ \<Rightarrow> Some c)"

definition final_sigma :: "nat list \<Rightarrow> nat list \<Rightarrow> bool" where
  "final_sigma seen rest =
     (case first_solid seen of
        None \<Rightarrow> False
      | Some c \<Rightarrow>
          cp_cased c \<and>
          (case first_solid rest of None \<Rightarrow> True | Some d \<Rightarrow> \<not> cp_cased d))"

fun lower_from :: "nat list \<Rightarrow> nat list \<Rightarrow> nat list" where
  "lower_from seen [] = []"
| "lower_from seen (c # cs) =
     (if c = 0x3A3 then (if final_sigma seen cs then 0x3C2 else 0x3C3) else cp_to_lower c)
       # lower_from (c # seen) cs"

definition cp_lower :: "nat list \<Rightarrow> nat list" where
  "cp_lower s = lower_from [] s"

text \<open>\<^verbatim>\<open>str.strip\<close> on code points, with all the white space of \<^verbatim>\<open>str.isspace\<close>.\<close>

definition cp_is_space :: "nat \<Rightarrow> bool" where
  "cp_is_space n =
     ((9 \<le> n \<and> n \<le> 13) \<or> (28 \<le> n \<and> n \<le> 32) \<or> n = 133 \<or> n = 160 \<or> n = 5760 \<or>
      (8192 \<le> n \<and> n \<le> 8202) \<or> n = 8232 \<or> n = 8233 \<or> n = 8239 \<or> n = 8287 \<or>
      n = 12288)"

definition cp_strip :: "nat list \<Rightarrow> nat list" where
  "cp_strip s = rev (dropWhile cp_is_space (rev (dropWhile cp_is_space s)))"

text \<open>
  The text test of line 296 on a title and an author that are strings, for the search
  input \<open>q\<close>: \<^verbatim>\<open>qlow in title.lower() or qlow in author.lower()\<close> with
  \<^verbatim>\<open>qlow = q.strip().lower()\<close>.
\<close>

definition cp_text_test :: "nat list \<Rightarrow> nat list \<Rightarrow> nat list \<Rightarrow> bool" where
  "cp_text_test q title author =
     (let qlow = cp_lower (cp_strip q)
      in sublist qlow (cp_lower title) \<or> sublist qlow (cp_lower author))"

subsection \<open>Library: Quick Edit\<close>

text \<open>Lines 359 to 363, on the record whose Save button was pressed.\<close>

definition quick_edit :: "env \<Rightarrow> bool \<Rightarrow> string \<Rightarrow> int \<Rightarrow> string \<Rightarrow> book \<Rightarrow> book" where
  "quick_edit ev new_fav new_status new_rating new_tags b =
     b(''favorite'' \<mapsto> PBool new_fav,
       ''status'' \<mapsto> PStr new_status,
       ''rating'' \<mapsto> (if new_rating \<noteq> 0 then PInt new_rating else PNone),
       ''tags'' \<mapsto> PList (map PStr (split_tags new_tags)),
       ''updated_at'' \<mapsto> PStr (now_handler ev))"

datatype quick = QSave bool string int string | QDelete

text \<open>
  \<open>a\<close> holds the position \<open>i\<close> of the record whose Save or Delete button was pressed.
  The buttons exist when the filter lists the record, and only for an admin.
  \<^verbatim>\<open>db.remove(b)\<close> takes out the first record equal to \<open>b\<close>; the run then ends with
  \<^verbatim>\<open>st.experimental_rerun()\<close>.
\<close>

definition tab_library ::
    "env \<Rightarrow> string \<Rightarrow> string \<Rightarrow> bool \<Rightarrow> string \<Rightarrow> (nat \<times> quick) option \<Rightarrow> book list
      \<Rightarrow> state \<Rightarrow> error + book list \<times> state" where
  "tab_library ev q tag_filter fav_only status_pick a db st =
     (case library_filter q tag_filter fav_only status_pick db of
        Inl e \<Rightarrow> Inl e
      | Inr filtered \<Rightarrow>
          if filtered = [] then Inr (db, show_msg (Info ''No results for these filters.'') st)
          else if \<not> can_edit st
          then Inr (db, show_msg (Caption ''Login as admin to delete.'')
                          (show_msg (Caption ''Login as admin to save.'') st))
          else
            (case a of
               None \<Rightarrow> Inr (db, st)
             | Some (i, act) \<Rightarrow>
                 if i < length db \<and> db ! i \<in> set filtered
                 then (case act of
                         QSave new_fav new_status new_rating new_tags \<Rightarrow>
                           (let db' = db[i := quick_edit ev new_fav new_status new_rating
                                                 new_tags (db ! i)]
                            in Inr (db', show_msg (Success ''Saved.'') (save_db db' st)))
                       | QDelete \<Rightarrow>
                           (let db' = remove1 (db ! i) db
                            in Inr (db', (show_msg (Warning ''Deleted.'') (save_db db' st))
                                           \<lparr>rerun := True\<rparr>)))
                 else Inr (db, st)))"

subsection \<open>Recommendations\<close>

text \<open>
  The two characters of the script's literals that lie beyond code point 255, the em
  dash and the en dash, are written as their UTF-8 bytes; they are only ever copied
  into the prompt.
\<close>

definition em_dash :: string where
  "em_dash = [CHR 0xE2, CHR 0x80, CHR 0x94]"

definition en_dash :: string where
  "en_dash = [CHR 0xE2, CHR 0x80, CHR 0x93]"

definition nl :: string where
  "nl = [CHR 0x0A]"

definition apostrophe :: string where
  "apostrophe = [CHR 0x27]"

text \<open>\<^verbatim>\<open>", ".join(v)\<close> needs strings.\<close>

fun strs_of :: "pyval list \<Rightarrow> error + string list" where
  "strs_of [] = Inr []"
| "strs_of (PStr s # ts) =
     (case strs_of ts of Inl e \<Rightarrow> Inl e | Inr r \<Rightarrow> Inr (s # r))"
| "strs_of (_ # ts) = Inl TypeError"

text \<open>The summary line of one record (lines 396 and 397).\<close>

definition seed_line :: "env \<Rightarrow> book \<Rightarrow> error + string" where
  "seed_line ev b =
     and_then (py_iter (get_or b ''tags'' (PList []))) (\<lambda>vs.
     and_then (strs_of vs) (\<lambda>ts.
     and_then (item b ''title'') (\<lambda>t.
       Inr (''- '' @ fmt ev t @ '' '' @ em_dash @ '' ''
            @ fmt ev (get_or b ''author'' (PStr ''?''))
            @ ''  [tags: '' @ join '', '' ts @ '']''
            @ ''  [fav:'' @ (if truthy (get_or b ''favorite'' PNone) then ''yes'' else ''no'')
            @ '']''
            @ ''  [rating:'' @ fmt ev (py_or (get_or b ''rating'' PNone) (PStr ''-''))
            @ '']''))))"

text \<open>\<^verbatim>\<open>read_books\<close> (line 389) and \<^verbatim>\<open>seed_lines\<close> (lines 394 to 397).\<close>

definition read_books :: "book list \<Rightarrow> error + book list" where
  "read_books db = filter_err (status_is ''read'') db"

definition seed_lines :: "env \<Rightarrow> book list \<Rightarrow> error + string list" where
  "seed_lines ev db =
     and_then (read_books db) (\<lambda>rb. map_err (seed_line ev) (take 40 rb))"

text \<open>The prompt (lines 407 to 427).\<close>

definition focus_txt :: "string \<Rightarrow> string" where
  "focus_txt focus_tags =
     (if strip focus_tags \<noteq> [] then ''Priority tags: '' @ focus_tags
      else ''Priority: flexible'')"

definition seeds_of :: "bool \<Rightarrow> string list \<Rightarrow> string list" where
  "seeds_of only_favs lines =
     filter (\<lambda>s. if only_favs then sublist ''fav:yes'' s else True) lines"

definition prompt :: "env \<Rightarrow> int \<Rightarrow> string \<Rightarrow> string list \<Rightarrow> string" where
  "prompt ev want_n focus_tags seeds =
     nl @ ''You are a seasoned literary curator. Based on the following ''
        @ apostrophe @ ''read'' @ apostrophe @ '' books,'' @ nl
     @ ''recommend **'' @ fmt ev (PInt want_n) @ ''** new books for the user.'' @ nl
     @ ''For each recommendation, include briefly:'' @ nl
     @ ''- **Title '' @ em_dash @ '' Author**'' @ nl
     @ ''- Why recommended? (1'' @ en_dash @ ''2 sentences)'' @ nl
     @ ''- Related themes / atmosphere'' @ nl
     @ ''- Reading Difficulty: X/10'' @ nl
     @ nl
     @ focus_txt focus_tags @ nl
     @ nl
     @ ''Summary of read books:'' @ nl
     @ join nl seeds @ nl
     @ nl
     @ ''Rules:'' @ nl
     @ ''- Answer in English.'' @ nl
     @ ''- Avoid recommending many works by the same author consecutively.'' @ nl
     @ ''- Strive for diversity (country/period/theme).'' @ nl"

text \<open>
  The Generate handler (lines 406 to 442). The call of the service and what follows it
  stand in a \<^verbatim>\<open>try\<close> whose \<^verbatim>\<open>except Exception\<close> shows the message of the exception.
\<close>

definition generate ::
    "env \<Rightarrow> int \<Rightarrow> string \<Rightarrow> bool \<Rightarrow> bool \<Rightarrow> string list \<Rightarrow> state \<Rightarrow> state" where
  "generate ev want_n focus_tags only_favs save_btn lines st =
     (case invoke ev (prompt ev want_n focus_tags (seeds_of only_favs lines)) of
        Inl e \<Rightarrow> show_msg (Error (''Error: '' @ e)) st
      | Inr out \<Rightarrow>
          (let st = show_msg (Markdown out) (show_msg (Markdown ''### Recommendations'') st)
           in if can_edit st \<and> save_btn
              then show_msg (Success ''Recommendations saved.'')
                     (st\<lparr>reco_file := reco_file st
                           @ [nl @ ''===== '' @ now_handler ev @ '' ====='' @ nl @ out @ nl]\<rparr>)
              else if \<not> can_edit st
              then show_msg (Caption ''Login as admin to save recommendations.'') st
              else st))"

text \<open>The tab; \<open>g\<close> holds the widget values when the Generate button was pressed.\<close>

definition tab_reco ::
    "env \<Rightarrow> (int \<times> string \<times> bool \<times> bool) option \<Rightarrow> book list \<Rightarrow> state
      \<Rightarrow> error + book list \<times> state" where
  "tab_reco ev g db st =
     (case read_books db of
        Inl e \<Rightarrow> Inl e
      | Inr rb \<Rightarrow>
          if rb = []
          then Inr (db, show_msg
                          (Info ''Add some books marked as 'read' to get recommendations.'') st)
          else (case map_err (seed_line ev) (take 40 rb) of
                  Inl e \<Rightarrow> Inl e
                | Inr lines \<Rightarrow>
                    (case g of
                       None \<Rightarrow> Inr (db, st)
                     | Some (want_n, focus_tags, only_favs, save_btn) \<Rightarrow>
                         Inr (db, generate ev want_n focus_tags only_favs save_btn lines st))))"

subsection \<open>One run of the script\<close>

text \<open>
  The widget values of a run. A run is started by one widget, so at most one button
  holds: Login, or the button of \<open>w_action\<close>.
\<close>

datatype action =
    NoAction
  | Submit form
  | Update nat int
  | Quick nat quick
  | Generate int string bool bool

record inputs =
  w_pwd :: string
  w_login_btn :: bool
  w_q :: string
  w_tag_filter :: string
  w_fav_only :: bool
  w_status_pick :: string
  w_action :: action

text \<open>
  A part of the script runs unless an earlier part raised or asked for a rerun; what
  was written before stays written.
\<close>

definition part ::
    "(book list \<Rightarrow> state \<Rightarrow> error + book list \<times> state)
      \<Rightarrow> book list \<times> state \<times> error option \<Rightarrow> book list \<times> state \<times> error option" where
  "part tab r =
     (case r of
        (db, st, Some e) \<Rightarrow> (db, st, Some e)
      | (db, st, None) \<Rightarrow>
          if rerun st then (db, st, None)
          else (case tab db st of
                  Inl e \<Rightarrow> (db, st, Some e)
                | Inr (db', st') \<Rightarrow> (db', st', None)))"

text \<open>The sidebar counts (lines 112 to 114) read \<^verbatim>\<open>x["status"]\<close> of every record.\<close>

definition sidebar :: "book list \<Rightarrow> state \<Rightarrow> error + book list \<times> state" where
  "sidebar db st =
     (case filter_err (status_is ''reading'') db of
        Inl e \<Rightarrow> Inl e
      | Inr _ \<Rightarrow> Inr (db, st))"

definition run :: "env \<Rightarrow> inputs \<Rightarrow> state \<Rightarrow> state \<times> error option" where
  "run ev inp st0 =
     (let st = login ev (w_pwd inp) (w_login_btn inp) (st0\<lparr>page := [], rerun := False\<rparr>);
          act = w_action inp;
          r = part sidebar (load_db st, st, None);
          r = part (tab_add ev (case act of Submit f \<Rightarrow> Some f | _ \<Rightarrow> None)) r;
          r = part (tab_reading ev
                      (case act of Update i new_prog \<Rightarrow> Some (i, new_prog) | _ \<Rightarrow> None)) r;
          r = part (tab_library ev (w_q inp) (w_tag_filter inp) (w_fav_only inp)
                      (w_status_pick inp)
                      (case act of Quick i a \<Rightarrow> Some (i, a) | _ \<Rightarrow> None)) r;
          r = part (tab_reco ev
                      (case act of
                         Generate want_n focus_tags only_favs save_btn \<Rightarrow>
                           Some (want_n, focus_tags, only_favs, save_btn)
                       | _ \<Rightarrow> None)) r
      in (fst (snd r), snd (snd r)))"

text \<open>A fresh session on given files.\<close>

definition init_state :: "book list option \<Rightarrow> string list \<Rightarrow> state" where
  "init_state file recos =
     \<lparr>can_edit = False, data_file = file, reco_file = recos, page = [], rerun = False\<rparr>"

text \<open>
  A session: the runs of the script one after another, each with the environment and
  the widget values of its moment.
\<close>

fun runs :: "(env \<times> inputs) list \<Rightarrow> state \<Rightarrow> state" where
  "runs [] st = st"
| "runs (x # xs) st = runs xs (fst (run (fst x) (snd x) st))"

section \<open>The properties of the specification\<close>

subsection \<open>Notions of the specification\<close>

text \<open>
  The record invariants of the data model: progress is an integer from 0 to 100,
  progress 100 comes with status \<^verbatim>\<open>read\<close>, the tags are a sorted list of distinct
  strings.
\<close>

fun the_strs :: "pyval list \<Rightarrow> string list option" where
  "the_strs [] = Some []"
| "the_strs (PStr s # vs) = map_option (Cons s) (the_strs vs)"
| "the_strs (_ # vs) = None"

definition progress_inv :: "book \<Rightarrow> bool" where
  "progress_inv b =
     (case b ''progress'' of
        Some (PInt p) \<Rightarrow> 0 \<le> p \<and> p \<le> 100 \<and> (p < 100 \<or> b ''status'' = Some (PStr ''read''))
      | _ \<Rightarrow> False)"

definition tags_inv :: "book \<Rightarrow> bool" where
  "tags_inv b =
     (case b ''tags'' of
        Some (PList vs) \<Rightarrow>
          (case the_strs vs of Some ts \<Rightarrow> sorted ts \<and> distinct ts | None \<Rightarrow> False)
      | _ \<Rightarrow> False)"

definition record_inv :: "book \<Rightarrow> bool" where
  "record_inv b = (progress_inv b \<and> tags_inv b)"

text \<open>The sorted list of the distinct non-empty trimmed tags.\<close>

definition spec_tags :: "string list \<Rightarrow> string list" where
  "spec_tags ts = sorted_list_of_set ((strip ` set ts) - {''''})"

text \<open>
  The number a progress value stands for: a boolean, an integer or a finite float
  (truncated); a missing or false value (\<^verbatim>\<open>None\<close>, zero, an empty string or list)
  counts as 0.
\<close>

definition numeric :: "pyval \<Rightarrow> int option" where
  "numeric v =
     (case v of
        PBool b \<Rightarrow> Some (if b then 1 else 0)
      | PInt n \<Rightarrow> Some n
      | PFloat (Finite r) \<Rightarrow> Some (trunc r)
      | _ \<Rightarrow> None)"

definition spec_progress :: "pyval option \<Rightarrow> int option" where
  "spec_progress f =
     (case f of
        None \<Rightarrow> Some 0
      | Some v \<Rightarrow> if truthy v then numeric v else Some 0)"

text \<open>
  The record \<^verbatim>\<open>_ensure_defaults\<close> returns, from the merged dictionary, the tags and
  the progress it computed.
\<close>

definition finish :: "book \<Rightarrow> string list \<Rightarrow> int \<Rightarrow> book" where
  "finish merged ts p =
     (let m = merged(''tags'' \<mapsto> PList (map PStr ts), ''progress'' \<mapsto> PInt p)
      in if 100 \<le> p then m(''status'' \<mapsto> PStr ''read'') else m)"

text \<open>A field of the record a call returned; \<open>None\<close> when it raised.\<close>

definition field_of :: "string \<Rightarrow> error + book \<Rightarrow> pyval option" where
  "field_of k r = (case r of Inl e \<Rightarrow> None | Inr m \<Rightarrow> m k)"

text \<open>
  A record as the data model types it: a title, an author that is a string or empty
  (\<^verbatim>\<open>None\<close>), tags that are a list of strings when present, and a status.
\<close>

definition wf_book :: "book \<Rightarrow> bool" where
  "wf_book b =
     ((case b ''title'' of Some (PStr t) \<Rightarrow> True | _ \<Rightarrow> False) \<and>
      (case b ''author'' of Some (PStr a) \<Rightarrow> True | Some PNone \<Rightarrow> True | _ \<Rightarrow> False) \<and>
      (case b ''tags'' of
         None \<Rightarrow> True
       | Some (PList vs) \<Rightarrow> the_strs vs \<noteq> None
       | _ \<Rightarrow> False) \<and>
      b ''status'' \<noteq> None)"

definition title_of :: "book \<Rightarrow> string" where
  "title_of b = (case b ''title'' of Some (PStr t) \<Rightarrow> t | _ \<Rightarrow> [])"

definition author_of :: "book \<Rightarrow> string" where
  "author_of b = (case b ''author'' of Some (PStr a) \<Rightarrow> a | _ \<Rightarrow> [])"

definition tags_of :: "book \<Rightarrow> string list" where
  "tags_of b =
     (case b ''tags'' of
        Some (PList vs) \<Rightarrow> (case the_strs vs of Some ts \<Rightarrow> ts | None \<Rightarrow> [])
      | _ \<Rightarrow> [])"

text \<open>
  The filter of the specification. A filter spec is the text query (the search input
  without surrounding white space), the requested tags (the non-empty trimmed parts of
  the tag input), the favorites-only flag and the status pick, where \<^verbatim>\<open>All\<close> asks for
  no status. Two strings are equal without regard to case when their lower-case forms
  are equal.
\<close>

definition ci_substring :: "string \<Rightarrow> string \<Rightarrow> bool" where
  "ci_substring x y = sublist (lower x) (lower y)"

definition has_tag :: "book \<Rightarrow> string \<Rightarrow> bool" where
  "has_tag b w = list_ex (\<lambda>t. lower t = lower w) (tags_of b)"

definition spec_match :: "string \<Rightarrow> string list \<Rightarrow> bool \<Rightarrow> string \<Rightarrow> book \<Rightarrow> bool" where
  "spec_match query tags fav pick b =
     ((ci_substring query (title_of b) \<or> ci_substring query (author_of b)) \<and>
      list_all (has_tag b) tags \<and>
      (truthy (get_or b ''favorite'' PNone) \<or> \<not> fav) \<and>
      (pick = ''All'' \<or> b ''status'' = Some (PStr pick)))"

definition is_read :: "book \<Rightarrow> bool" where
  "is_read b = (b ''status'' = Some (PStr ''read''))"

text \<open>A run whose Login button was pressed with the configured secret.\<close>

definition login_ok :: "env \<Rightarrow> inputs \<Rightarrow> bool" where
  "login_ok ev inp =
     (w_login_btn inp \<and> w_pwd inp \<noteq> [] \<and>
      PStr (w_pwd inp) = (case admin_pass ev of None \<Rightarrow> PStr [] | Some v \<Rightarrow> v))"

subsection \<open>Sample data\<close>

text \<open>Records, a collection and an environment on which the theorems are instantiated.\<close>

definition wb1 :: book where
  "wb1 = [''title'' \<mapsto> PStr ''Dune'', ''author'' \<mapsto> PStr ''Herbert'',
          ''tags'' \<mapsto> PList [PStr ''SciFi''], ''status'' \<mapsto> PStr ''read'',
          ''favorite'' \<mapsto> PBool True]"

definition wb2 :: book where
  "wb2 = [''title'' \<mapsto> PStr ''Emma'', ''author'' \<mapsto> PNone,
          ''status'' \<mapsto> PStr ''to_read'']"

definition wb3 :: book where
  "wb3 = [''title'' \<mapsto> PStr ''Solaris'', ''author'' \<mapsto> PStr ''Lem'',
          ''tags'' \<mapsto> PList [], ''status'' \<mapsto> PStr ''read'']"

definition ev0 :: env where
  "ev0 = \<lparr>admin_pass = Some (PStr ''s3cret''), uuid_form = ''id-form'',
          now_form = ''2024-06-01T12:00:00'', uuid_dflt = ''id-dflt'',
          now_created = ''2024-06-01T12:00:00'', now_updated = ''2024-06-01T12:00:00'',
          now_handler = ''2024-06-01T12:00:00'',
          invoke = (\<lambda>p. Inl ''quota exceeded''),
          fmt = (\<lambda>v. case v of PStr s \<Rightarrow> s | _ \<Rightarrow> ''?'')\<rparr>"

definition db41 :: "book list" where
  "db41 = wb2 # replicate 40 wb1 @ [wb3]"

definition st_admin :: state where
  "st_admin = \<lparr>can_edit = True, data_file = Some [wb1], reco_file = [], page = [],
               rerun = False\<rparr>"

definition inp_idle :: inputs where
  "inp_idle = \<lparr>w_pwd = [], w_login_btn = False, w_q = [], w_tag_filter = [],
               w_fav_only = False, w_status_pick = ''All'', w_action = NoAction\<rparr>"

definition inp_wrong :: inputs where
  "inp_wrong = inp_idle\<lparr>w_pwd := ''guess'', w_login_btn := True\<rparr>"

definition inp_delete :: inputs where
  "inp_delete = inp_idle\<lparr>w_action := Quick 0 QDelete\<rparr>"

definition f_blank :: form where
  "f_blank = \<lparr>f_selected = None, f_title = ''   '', f_author = ''Herbert'',
              f_status = ''reading'', f_progress = 40, f_favorite = False, f_rating = 7,
              f_tags = ''scifi'', f_notes = [], f_cover = None, f_remove_cover = False\<rparr>"

definition wb5 :: book where
  "wb5 = [''id'' \<mapsto> PStr ''b5'', ''title'' \<mapsto> PStr ''Dune'', ''author'' \<mapsto> PStr ''Herbert'',
          ''status'' \<mapsto> PStr ''read'', ''progress'' \<mapsto> PInt 100,
          ''favorite'' \<mapsto> PBool False, ''tags'' \<mapsto> PList [PStr ''scifi''],
          ''cover_path'' \<mapsto> PNone, ''rating'' \<mapsto> PNone, ''notes'' \<mapsto> PStr [],
          ''created_at'' \<mapsto> PStr ''2024-01-01T09:00:00'',
          ''updated_at'' \<mapsto> PStr ''2024-01-01T09:00:00'']"

definition st5 :: state where
  "st5 = \<lparr>can_edit = True, data_file = Some [wb5], reco_file = [], page = [],
          rerun = False\<rparr>"


definition inp_quick :: inputs where
  "inp_quick = inp_idle\<lparr>w_action := Quick 0 (QSave False ''to_read'' 7 ''scifi,classic,scifi'')\<rparr>"

definition wb5_edited :: book where
  "wb5_edited = quick_edit ev0 False ''to_read'' 7 ''scifi,classic,scifi'' wb5"

subsection \<open>The normalizer\<close>

lemma strip_idem: "strip (strip s) = strip s"
proof -
  define a where "a = dropWhile is_space s"
  define b where "b = dropWhile is_space (rev a)"
  have t: "strip s = rev b" by (simp add: strip_def a_def b_def)
  have "dropWhile is_space (rev b) = rev b"
  proof (cases "b = []")
    case True then show ?thesis by simp
  next
    case False
    then have "rev a \<noteq> []" by (auto simp: b_def)
    then have an: "a \<noteq> []" by simp
    then have ha: "\<not> is_space (hd a)" unfolding a_def by (rule hd_dropWhile)
    obtain ys where "rev a = ys @ b" unfolding b_def
      by (metis takeWhile_dropWhile_id)
    then have "last (rev a) = last b" using False by simp
    then have "hd (rev b) = hd a" using an False by (simp add: hd_rev last_rev)
    then show ?thesis using ha by (simp add: dropWhile_eq_self_iff)
  qed
  moreover have "dropWhile is_space b = b" by (simp add: b_def)
  ultimately have "strip (rev b) = rev b" by (simp add: strip_def)
  then show ?thesis by (simp add: t)
qed

lemma spec_tags_sort: "spec_tags ts = sort (remdups (filter (\<lambda>t. t \<noteq> []) (map strip ts)))"
proof -
  have "(strip ` set ts) - {''''} = set (filter (\<lambda>t. t \<noteq> []) (map strip ts))" by auto
  then show ?thesis by (simp add: spec_tags_def sorted_list_of_set_sort_remdups del: set_filter)
qed

lemma strip_each_strs: "strip_each (map PStr ts) = Inr (map strip ts)"
  by (induction ts) simp_all

lemma strip_each_Inr: "strip_each vs = Inr ss \<Longrightarrow> \<exists>ts. vs = map PStr ts \<and> ss = map strip ts"
proof (induction vs arbitrary: ss rule: strip_each.induct)
  case 1 then show ?case by simp
next
  case (2 s ts)
  then obtain r where r: "strip_each ts = Inr r" "ss = strip s # r"
    by (auto split: sum.splits)
  from 2(1)[OF r(1)] obtain us where "ts = map PStr us" "r = map strip us" by blast
  then have "PStr s # ts = map PStr (s # us) \<and> ss = map strip (s # us)" using r by simp
  then show ?case by (rule exI)
qed simp_all

lemma merged_tags: "get_or (defaults uid c u ++ bk) ''tags'' (PList []) = get_or bk ''tags'' (PList [])"
  by (simp add: get_or_def defaults_def map_add_def split: option.splits)

lemma merged_progress: "get_or ((defaults uid c u ++ bk)(''tags'' \<mapsto> v)) ''progress'' (PInt 0) = get_or bk ''progress'' (PInt 0)"
  by (simp add: get_or_def defaults_def map_add_def split: option.splits)

lemma norm_tags_Inr:
  "norm_tags v = Inr ss \<longleftrightarrow> (\<exists>ts. py_iter v = Inr (map PStr ts) \<and> ss = spec_tags ts)"
  by (auto simp: norm_tags_def spec_tags_sort strip_each_strs split: sum.splits dest: strip_each_Inr)

lemma norm_progress_range: "norm_progress v = Inr p \<Longrightarrow> 0 \<le> p \<and> p \<le> 100"
  by (auto simp: norm_progress_def split: sum.splits)

lemma ensure_defaults_Inr:
  "ensure_defaults uid c u bk = Inr m \<longleftrightarrow>
     (\<exists>ts p. norm_tags (get_or bk ''tags'' (PList [])) = Inr ts \<and>
             norm_progress (get_or bk ''progress'' (PInt 0)) = Inr p \<and>
             m = finish (defaults uid c u ++ bk) ts p)"
  by (auto simp: ensure_defaults_def finish_def Let_def merged_tags merged_progress split: sum.splits)

lemma spec_progress_norm:
  "spec_progress (bk ''progress'') = Some n \<Longrightarrow>
   norm_progress (get_or bk ''progress'' (PInt 0)) = Inr (max 0 (min 100 n))"
  apply (cases "bk ''progress''")
   apply (simp add: spec_progress_def norm_progress_def get_or_def py_or_def)
  subgoal for v
    apply (cases "truthy v")
     apply (cases v; simp add: spec_progress_def norm_progress_def get_or_def py_or_def numeric_def split: pyfloat.splits)
    apply (simp add: spec_progress_def norm_progress_def get_or_def py_or_def)
    done
  done

lemma finish_progress: "finish mg ts p ''progress'' = Some (PInt p)"
  by (simp add: finish_def Let_def)

lemma finish_tags: "finish mg ts p ''tags'' = Some (PList (map PStr ts))"
  by (simp add: finish_def Let_def)

lemma finish_other:
  "k \<noteq> ''tags'' \<Longrightarrow> k \<noteq> ''progress'' \<Longrightarrow> k \<noteq> ''status'' \<Longrightarrow> finish mg ts p k = mg k"
  by (simp add: finish_def Let_def)

text \<open>
  Claim C6, as the code has it. Whenever \<^verbatim>\<open>_ensure_defaults\<close> returns, the progress of
  its result is an integer from 0 to 100. It returns, with the clamped number, for every
  record whose tags can be normalized and whose progress is missing, false (\<^verbatim>\<open>None\<close>,
  zero, an empty string or list), a boolean, an integer or a finite float; a missing or
  false value gives 0. It does not return for every record: see the counterexample.
\<close>

theorem normalize_progress:
  "(\<forall>m. ensure_defaults uid c u bk = Inr m \<longrightarrow>
        (\<exists>p. m ''progress'' = Some (PInt p) \<and> 0 \<le> p \<and> p \<le> 100)) \<and>
   (\<forall>n ts. spec_progress (bk ''progress'') = Some n \<and>
           norm_tags (get_or bk ''tags'' (PList [])) = Inr ts \<longrightarrow>
        (\<exists>m. ensure_defaults uid c u bk = Inr m \<and>
             m ''progress'' = Some (PInt (max 0 (min 100 n)))))"
proof (intro conjI allI impI)
  fix m assume "ensure_defaults uid c u bk = Inr m"
  then obtain ts p where p: "norm_progress (get_or bk ''progress'' (PInt 0)) = Inr p"
    and m: "m = finish (defaults uid c u ++ bk) ts p"
    unfolding ensure_defaults_Inr by blast
  from norm_progress_range[OF p] show "\<exists>p. m ''progress'' = Some (PInt p) \<and> 0 \<le> p \<and> p \<le> 100"
    by (auto simp: m finish_progress)
next
  fix n ts
  assume a: "spec_progress (bk ''progress'') = Some n \<and>
             norm_tags (get_or bk ''tags'' (PList [])) = Inr ts"
  let ?m = "finish (defaults uid c u ++ bk) ts (max 0 (min 100 n))"
  have "ensure_defaults uid c u bk = Inr ?m"
    unfolding ensure_defaults_Inr using a spec_progress_norm by blast
  then show "\<exists>m. ensure_defaults uid c u bk = Inr m \<and>
                 m ''progress'' = Some (PInt (max 0 (min 100 n)))"
    by (simp add: finish_progress)
qed

theorem normalize_progress_witness:
  "\<exists>m. ensure_defaults ''u'' ''c'' ''n''
          [''progress'' \<mapsto> PInt 250, ''tags'' \<mapsto> PList [PStr ''a'']] = Inr m \<and>
        m ''progress'' = Some (PInt 100)"
proof -
  let ?bk = "[''progress'' \<mapsto> PInt 250, ''tags'' \<mapsto> PList [PStr ''a'']]"
  have 1: "spec_progress (?bk ''progress'') = Some 250"
    by (simp add: spec_progress_def numeric_def)
  have 2: "norm_tags (get_or ?bk ''tags'' (PList [])) = Inr [''a'']"
    by (simp add: norm_tags_def get_or_def strip_def is_space_def)
  from normalize_progress[of "''u''" "''c''" "''n''" ?bk] 1 2
  have "\<exists>m. ensure_defaults ''u'' ''c'' ''n'' ?bk = Inr m \<and>
           m ''progress'' = Some (PInt (max 0 (min 100 250)))" by blast
  then show ?thesis by simp
qed

text \<open>
  Claim C6 as stated fails: on a record whose progress is the non-numeric string
  \<^verbatim>\<open>"abc"\<close>, \<^verbatim>\<open>int("abc" or 0)\<close> raises \<^verbatim>\<open>ValueError\<close>; nothing is coerced to 0.
\<close>

theorem normalize_progress_counterexample:
  "ensure_defaults ''u'' ''c'' ''n'' [''progress'' \<mapsto> PStr ''abc''] = Inl ValueError"
  by (simp add: ensure_defaults_def defaults_def get_or_def norm_tags_def norm_progress_def
      py_or_def int_of_str_def strip_int_def int_space_def parse_unsigned_def is_digit_def)

text \<open>
  Claim C7. Whenever \<^verbatim>\<open>_ensure_defaults\<close> returns, the input tags were strings and the
  tags of the result are the sorted list of the distinct non-empty trimmed input tags;
  and it returns with these tags for every record whose tags are strings and whose
  progress can be normalized.
\<close>

theorem normalize_tags:
  "(\<forall>m. ensure_defaults uid c u bk = Inr m \<longrightarrow>
        (\<exists>ts. py_iter (get_or bk ''tags'' (PList [])) = Inr (map PStr ts) \<and>
              m ''tags'' = Some (PList (map PStr (spec_tags ts))))) \<and>
   (\<forall>ts p. py_iter (get_or bk ''tags'' (PList [])) = Inr (map PStr ts) \<and>
           norm_progress (get_or bk ''progress'' (PInt 0)) = Inr p \<longrightarrow>
        (\<exists>m. ensure_defaults uid c u bk = Inr m \<and>
             m ''tags'' = Some (PList (map PStr (spec_tags ts)))))"
proof (intro conjI allI impI)
  fix m assume "ensure_defaults uid c u bk = Inr m"
  then obtain ss p where s: "norm_tags (get_or bk ''tags'' (PList [])) = Inr ss"
    and m: "m = finish (defaults uid c u ++ bk) ss p"
    unfolding ensure_defaults_Inr by blast
  from s obtain ts where "py_iter (get_or bk ''tags'' (PList [])) = Inr (map PStr ts)"
    "ss = spec_tags ts" unfolding norm_tags_Inr by blast
  then have "py_iter (get_or bk ''tags'' (PList [])) = Inr (map PStr ts) \<and>
             m ''tags'' = Some (PList (map PStr (spec_tags ts)))"
    by (simp add: m finish_tags)
  then show "\<exists>ts. py_iter (get_or bk ''tags'' (PList [])) = Inr (map PStr ts) \<and>
                  m ''tags'' = Some (PList (map PStr (spec_tags ts)))" by (rule exI)
next
  fix ts p
  assume a: "py_iter (get_or bk ''tags'' (PList [])) = Inr (map PStr ts) \<and>
             norm_progress (get_or bk ''progress'' (PInt 0)) = Inr p"
  let ?m = "finish (defaults uid c u ++ bk) (spec_tags ts) p"
  have "norm_tags (get_or bk ''tags'' (PList [])) = Inr (spec_tags ts)"
    unfolding norm_tags_Inr using a by blast
  then have "ensure_defaults uid c u bk = Inr ?m"
    unfolding ensure_defaults_Inr using a by blast
  then show "\<exists>m. ensure_defaults uid c u bk = Inr m \<and>
                 m ''tags'' = Some (PList (map PStr (spec_tags ts)))"
    by (simp add: finish_tags)
qed

lemma strip_samples: "strip '' b'' = ''b''" "strip ''a'' = ''a''" "strip ''b  '' = ''b''" "strip ''  '' = []"
  by (simp_all add: strip_def is_space_def)

theorem normalize_tags_witness:
  "\<exists>m. ensure_defaults ''u'' ''c'' ''n''
          [''tags'' \<mapsto> PList [PStr '' b'', PStr ''a'', PStr ''b  '', PStr ''  '']] = Inr m \<and>
        m ''tags'' = Some (PList [PStr ''a'', PStr ''b''])"
proof -
  let ?bk = "[''tags'' \<mapsto> PList [PStr '' b'', PStr ''a'', PStr ''b  '', PStr ''  '']]"
  let ?ts = "['' b'', ''a'', ''b  '', ''  '']"
  have 1: "py_iter (get_or ?bk ''tags'' (PList [])) = Inr (map PStr ?ts)"
    by (simp add: get_or_def)
  have 2: "norm_progress (get_or ?bk ''progress'' (PInt 0)) = Inr 0"
    by (simp add: get_or_def norm_progress_def py_or_def)
  have 3: "spec_tags ?ts = [''a'', ''b'']"
    by (simp add: spec_tags_sort strip_samples)
  from normalize_tags[of "''u''" "''c''" "''n''" ?bk] 1 2
  have "\<exists>m. ensure_defaults ''u'' ''c'' ''n'' ?bk = Inr m \<and>
           m ''tags'' = Some (PList (map PStr (spec_tags ?ts)))" by blast
  then show ?thesis by (simp add: 3)
qed

lemma spec_tags_props: "sorted (spec_tags ts)" "distinct (spec_tags ts)"
  "set (spec_tags ts) = strip ` set ts - {''''}"
  by (simp_all add: spec_tags_def)

lemma spec_tags_idem: "spec_tags (spec_tags ts) = spec_tags ts"
proof -
  have "x \<in> set (spec_tags ts) \<Longrightarrow> strip x = x" for x
    by (auto simp: spec_tags_props strip_idem)
  then have 1: "map strip (spec_tags ts) = spec_tags ts" by (simp add: map_idI)
  have 2: "filter (\<lambda>t. t \<noteq> []) (spec_tags ts) = spec_tags ts"
    by (rule filter_True) (auto simp: spec_tags_props)
  show ?thesis
    unfolding spec_tags_sort[of "spec_tags ts"] 1 2
    by (simp add: spec_tags_props distinct_remdups_id sort_key_id_if_sorted)
qed

lemma defaults_None: "defaults uid c u k = None \<Longrightarrow> defaults uid' c' u' k = None"
  by (simp add: defaults_def split: if_splits)

lemma finish_None: "finish mg ts p k = None \<Longrightarrow> mg k = None"
  by (simp add: finish_def Let_def split: if_splits)

lemma finish_status: "100 \<le> p \<Longrightarrow> finish mg ts p ''status'' = Some (PStr ''read'')"
  by (simp add: finish_def Let_def)

lemma norm_progress_fix: "0 \<le> p \<Longrightarrow> p \<le> 100 \<Longrightarrow> norm_progress (PInt p) = Inr p"
  by (simp add: norm_progress_def py_or_def)

lemma ensure_defaults_idem:
  assumes "ensure_defaults uid c u bk = Inr m"
  shows "ensure_defaults uid' c' u' m = Inr m"
proof -
  from assms obtain ss p where s: "norm_tags (get_or bk ''tags'' (PList [])) = Inr ss"
    and p: "norm_progress (get_or bk ''progress'' (PInt 0)) = Inr p"
    and m: "m = finish (defaults uid c u ++ bk) ss p"
    unfolding ensure_defaults_Inr by blast
  from s obtain ts where ss: "ss = spec_tags ts" unfolding norm_tags_Inr by blast
  have t': "norm_tags (get_or m ''tags'' (PList [])) = Inr ss"
    unfolding norm_tags_Inr
    by (rule exI[of _ ss]) (simp add: get_or_def m finish_tags ss spec_tags_idem)
  have p': "norm_progress (get_or m ''progress'' (PInt 0)) = Inr p"
    using norm_progress_range[OF p] by (simp add: get_or_def m finish_progress norm_progress_fix)
  have "defaults uid' c' u' ++ m = m"
  proof (rule ext)
    fix k show "(defaults uid' c' u' ++ m) k = m k"
    proof (cases "m k")
      case None
      then have "(defaults uid c u ++ bk) k = None" unfolding m by (rule finish_None)
      then have "defaults uid c u k = None" by (simp add: map_add_def split: option.splits)
      then have "defaults uid' c' u' k = None" by (rule defaults_None)
      then show ?thesis using None by (simp add: map_add_def)
    qed (simp add: map_add_def)
  qed
  moreover have "finish m ss p = m"
  proof (rule ext)
    fix k show "finish m ss p k = m k"
      by (cases "100 \<le> p") (auto simp: finish_def Let_def m)
  qed
  ultimately have "m = finish (defaults uid' c' u' ++ m) ss p" by simp
  with t' p' show ?thesis unfolding ensure_defaults_Inr by blast
qed

lemma ensure_defaults_updated_at:
  assumes "ensure_defaults uid c u bk = Inr m"
  shows "m ''updated_at'' = (case bk ''updated_at'' of None \<Rightarrow> Some (PStr u) | Some v \<Rightarrow> Some v)"
proof -
  from assms obtain ss p where m: "m = finish (defaults uid c u ++ bk) ss p"
    unfolding ensure_defaults_Inr by blast
  show ?thesis
    by (simp add: m finish_other map_add_def defaults_def split: option.splits)
qed

text \<open>
  Claim C2, as the code has it. \<^verbatim>\<open>_ensure_defaults\<close> keeps the \<^verbatim>\<open>updated_at\<close> of a
  record that has one and stamps the clock reading only on a record that has none (its
  callers stamp the field before they call it). On a record it returned it is
  idempotent in every field, \<^verbatim>\<open>updated_at\<close> included, whatever the identifier and the
  clock readings of the second call.
\<close>

theorem normalize_updated_at:
  "\<forall>m. ensure_defaults uid c u bk = Inr m \<longrightarrow>
       m ''updated_at'' =
         (case bk ''updated_at'' of None \<Rightarrow> Some (PStr u) | Some v \<Rightarrow> Some v) \<and>
       ensure_defaults uid' c' u' m = Inr m"
  using ensure_defaults_updated_at ensure_defaults_idem by blast

theorem normalize_updated_at_witness:
  "\<exists>m. ensure_defaults ''u'' ''c'' ''n'' [''title'' \<mapsto> PStr ''Dune''] = Inr m \<and>
        m ''updated_at'' = Some (PStr ''n'') \<and>
        ensure_defaults ''u2'' ''c2'' ''n2'' m = Inr m"
proof -
  let ?bk = "[''title'' \<mapsto> PStr ''Dune'']"
  have "norm_tags (get_or ?bk ''tags'' (PList [])) = Inr []"
    by (simp add: norm_tags_def get_or_def)
  moreover have "norm_progress (get_or ?bk ''progress'' (PInt 0)) = Inr 0"
    by (simp add: norm_progress_def get_or_def py_or_def)
  ultimately obtain m where m: "ensure_defaults ''u'' ''c'' ''n'' ?bk = Inr m"
    unfolding ensure_defaults_Inr by blast
  from normalize_updated_at[of "''u''" "''c''" "''n''" ?bk "''u2''" "''c2''" "''n2''"] m
  have "m ''updated_at'' = Some (PStr ''n'') \<and> ensure_defaults ''u2'' ''c2'' ''n2'' m = Inr m"
    by simp
  with m show ?thesis by blast
qed

text \<open>
  Claim C2 as stated fails: a record that carries an \<^verbatim>\<open>updated_at\<close> of 2020 comes back
  from a call made in 2024 with the \<^verbatim>\<open>updated_at\<close> of 2020; the field did not advance.
\<close>

theorem normalize_updated_at_counterexample:
  "field_of ''updated_at''
     (ensure_defaults ''u'' ''2024-06-01T12:00:00'' ''2024-06-01T12:00:00''
        [''title'' \<mapsto> PStr ''Dune'', ''updated_at'' \<mapsto> PStr ''2020-01-01T00:00:00''])
   = Some (PStr ''2020-01-01T00:00:00'')"
  by (simp add: field_of_def ensure_defaults_def defaults_def get_or_def norm_tags_def
      norm_progress_def py_or_def)

subsection \<open>The library filter\<close>

lemma and_then_Inr [simp]: "and_then (Inr x) f = f x"
  by (simp add: and_then_def)

lemma and_then_Inl [simp]: "and_then (Inl e) f = Inl e"
  by (simp add: and_then_def)

lemma filter_err_total:
  "(\<And>x. x \<in> set xs \<Longrightarrow> p x = Inr (P x)) \<Longrightarrow> filter_err p xs = Inr (filter P xs)"
  by (induction xs) simp_all

lemma filter_err_Inr:
  "filter_err p xs = Inr r \<Longrightarrow> r = filter (\<lambda>x. p x = Inr True) xs"
proof (induction xs arbitrary: r)
  case Nil then show ?case by simp
next
  case (Cons x xs)
  then show ?case by (auto split: sum.splits if_splits)
qed

lemma the_strs_Some: "the_strs vs = Some ts \<longleftrightarrow> vs = map PStr ts"
proof (induction vs arbitrary: ts rule: the_strs.induct)
  case 1 then show ?case by auto
next
  case (2 s vs) then show ?case by (cases ts) auto
qed auto

lemma the_strs_map [simp]: "the_strs (map PStr ts) = Some ts"
  by (simp add: the_strs_Some)

lemma lower_each_strs: "lower_each (map PStr ts) = Inr (map lower ts)"
  by (induction ts) simp_all

lemma strs_of_strs: "strs_of (map PStr ts) = Inr ts"
  by (induction ts) simp_all

lemma wf_tags_iter:
  "wf_book b \<Longrightarrow> py_iter (get_or b ''tags'' (PList [])) = Inr (map PStr (tags_of b))"
  by (auto simp: wf_book_def tags_of_def get_or_def the_strs_Some
      split: option.splits pyval.splits)

lemma wf_text_match:
  assumes "wf_book b"
  shows "text_match (lower qy) b = Inr (ci_substring qy (title_of b) \<or> ci_substring qy (author_of b))"
proof -
  from assms obtain t where t: "b ''title'' = Some (PStr t)"
    by (auto simp: wf_book_def split: option.splits pyval.splits)
  from assms have a: "b ''author'' = Some PNone \<or> (\<exists>a. b ''author'' = Some (PStr a))"
    by (auto simp: wf_book_def split: option.splits pyval.splits)
  then show ?thesis
    by (auto simp: text_match_def item_def py_lower_def py_or_def t title_of_def author_of_def
        ci_substring_def lower_def)
qed

lemma lower_subset_has_tag:
  "set (map lower ws) \<subseteq> set (map lower ts) \<longleftrightarrow>
     (\<forall>w \<in> set ws. \<exists>t \<in> set ts. lower t = lower w)"
proof
  assume a: "set (map lower ws) \<subseteq> set (map lower ts)"
  show "\<forall>w \<in> set ws. \<exists>t \<in> set ts. lower t = lower w"
  proof
    fix w assume "w \<in> set ws"
    then have "lower w \<in> set (map lower ws)" by simp
    with a have "lower w \<in> set (map lower ts)" by (rule subsetD)
    then show "\<exists>t \<in> set ts. lower t = lower w" by auto
  qed
next
  assume a: "\<forall>w \<in> set ws. \<exists>t \<in> set ts. lower t = lower w"
  show "set (map lower ws) \<subseteq> set (map lower ts)"
  proof
    fix x assume "x \<in> set (map lower ws)"
    then obtain w where w: "w \<in> set ws" "x = lower w" by auto
    with a obtain t where t: "t \<in> set ts" "lower t = lower w" by auto
    have "lower t \<in> set (map lower ts)" using t(1) by simp
    then show "x \<in> set (map lower ts)" by (simp only: w(2) t(2))
  qed
qed

lemma wf_tags_match:
  assumes "wf_book b"
  shows "tags_match (map lower ws) b = Inr (list_all (has_tag b) ws)"
proof -
  have "tags_match (map lower ws) b
        = Inr (set (map lower ws) \<subseteq> set (map lower (tags_of b)))"
    by (simp only: tags_match_def wf_tags_iter[OF assms] lower_each_strs and_then_Inr)
  also have "\<dots> = Inr (\<forall>w \<in> set ws. \<exists>t \<in> set (tags_of b). lower t = lower w)"
    by (simp only: lower_subset_has_tag)
  also have "(\<forall>w \<in> set ws. \<exists>t \<in> set (tags_of b). lower t = lower w)
             = list_all (has_tag b) ws"
    unfolding list_all_iff Ball_def has_tag_def list_ex_iff by simp
  finally show ?thesis .
qed

lemma wf_status_is:
  "wf_book b \<Longrightarrow> status_is s b = Inr (b ''status'' = Some (PStr s))"
  by (auto simp: wf_book_def status_is_def item_def)

lemma comma_not_space: "\<not> is_space (CHR '','')"
  by (simp add: is_space_def)

lemma strip_empty_iff: "strip s = [] \<longleftrightarrow> (\<forall>c \<in> set s. is_space c)"
proof
  assume "strip s = []"
  then have d: "\<forall>x \<in> set (dropWhile is_space s). is_space x"
    by (simp add: strip_def dropWhile_eq_Nil_conv)
  have "set s = set (takeWhile is_space s) \<union> set (dropWhile is_space s)"
    by (metis set_append takeWhile_dropWhile_id)
  with d show "\<forall>c \<in> set s. is_space c" by (auto dest: set_takeWhileD)
next
  assume "\<forall>c \<in> set s. is_space c"
  then have e: "dropWhile is_space s = []" by (simp add: dropWhile_eq_Nil_conv)
  show "strip s = []" unfolding strip_def e by simp
qed

lemma split_comma_no_comma: "CHR '','' \<notin> set s \<Longrightarrow> split_comma s = [s]"
  by (induction s) auto

lemma split_tags_blank: "strip s = [] \<Longrightarrow> split_tags s = []"
proof -
  assume a: "strip s = []"
  then have "CHR '','' \<notin> set s" using comma_not_space by (auto simp: strip_empty_iff)
  then show ?thesis by (simp add: split_tags_def split_comma_no_comma a)
qed

lemma strip_Nil [simp]: "strip [] = []"
  by (simp add: strip_def)

lemma ci_substring_Nil [simp]: "ci_substring [] y"
  by (simp add: ci_substring_def lower_def)

text \<open>
  The filter on text of code points below 256. On a collection of records typed as the
  data model types them, the filter returns (it does not raise) the records that match
  the filter spec, in their original order: the text query is a substring of the title
  or of the author without regard to case, every requested tag is a tag of the record
  without regard to case, the record is a favorite when only favorites are asked for,
  and its status is the picked one unless the pick is \<^verbatim>\<open>All\<close>. The filter spec is read
  off the widgets: the query is the search input without surrounding white space, the
  requested tags are the non-empty trimmed parts of the tag input.
\<close>

theorem library_filter_spec:
  assumes "list_all wf_book db"
  shows "library_filter q tag_filter fav_only status_pick db
         = Inr (filter (spec_match (strip q) (split_tags tag_filter) fav_only status_pick) db)"
proof -
  let ?T = "\<lambda>b. ci_substring (strip q) (title_of b) \<or> ci_substring (strip q) (author_of b)"
  let ?G = "\<lambda>b. list_all (has_tag b) (split_tags tag_filter)"
  let ?F = "\<lambda>b. truthy (get_or b ''favorite'' PNone) \<or> \<not> fav_only"
  let ?S = "\<lambda>b. status_pick = ''All'' \<or> b ''status'' = Some (PStr status_pick)"
  from assms have wf: "\<And>b. b \<in> set db \<Longrightarrow> wf_book b" by (simp add: list_all_iff)
  have 1: "(if q \<noteq> [] then filter_err (text_match (lower (strip q))) db else Inr db)
           = Inr (filter ?T db)"
  proof (cases "q = []")
    case True then show ?thesis by simp
  next
    case False
    have "filter_err (text_match (lower (strip q))) db = Inr (filter ?T db)"
      by (rule filter_err_total) (simp add: wf wf_text_match)
    with False show ?thesis by simp
  qed
  have 2: "(if strip tag_filter \<noteq> []
            then filter_err (tags_match (map lower (split_tags tag_filter))) (filter ?T db)
            else Inr (filter ?T db))
           = Inr (filter ?G (filter ?T db))"
  proof (cases "strip tag_filter = []")
    case True then show ?thesis by (simp add: split_tags_blank)
  next
    case False
    have "filter_err (tags_match (map lower (split_tags tag_filter))) (filter ?T db)
          = Inr (filter ?G (filter ?T db))"
      by (rule filter_err_total) (simp add: wf wf_tags_match)
    with False show ?thesis by simp
  qed
  have 3: "(if fav_only
            then filter (\<lambda>b. truthy (get_or b ''favorite'' PNone)) (filter ?G (filter ?T db))
            else filter ?G (filter ?T db))
           = filter ?F (filter ?G (filter ?T db))"
    by simp
  have 4: "(if status_pick \<noteq> ''All''
            then filter_err (status_is status_pick) (filter ?F (filter ?G (filter ?T db)))
            else Inr (filter ?F (filter ?G (filter ?T db))))
           = Inr (filter ?S (filter ?F (filter ?G (filter ?T db))))"
  proof (cases "status_pick = ''All''")
    case True then show ?thesis by simp
  next
    case False
    have "filter_err (status_is status_pick) (filter ?F (filter ?G (filter ?T db)))
          = Inr (filter (\<lambda>b. b ''status'' = Some (PStr status_pick))
                   (filter ?F (filter ?G (filter ?T db))))"
      by (rule filter_err_total) (simp add: wf wf_status_is)
    with False show ?thesis by simp
  qed
  have 5: "filter ?S (filter ?F (filter ?G (filter ?T db)))
           = filter (spec_match (strip q) (split_tags tag_filter) fav_only status_pick) db"
    unfolding filter_filter by (rule filter_cong) (auto simp: spec_match_def)
  show ?thesis
    unfolding library_filter_def 1 and_then_Inr 2 Let_def 3 4 5 ..
qed

lemma strip_q: "strip '' dUNe '' = ''dUNe''"
  by (simp add: strip_def is_space_def)

lemma split_scifi: "split_tags ''scifi'' = [''scifi'']"
  by (simp add: split_tags_def strip_def is_space_def)

lemma lowers: "lower ''dUNe'' = ''dune''" "lower ''Dune'' = ''dune''"
  "lower ''SciFi'' = ''scifi''" "lower ''scifi'' = ''scifi''"
  by code_simp+

lemma sample_match: "spec_match ''dUNe'' [''scifi''] True ''read'' wb1"
  by (simp add: spec_match_def ci_substring_def lowers title_of_def
      author_of_def has_tag_def tags_of_def get_or_def wb1_def)

lemma sample_no_match: "\<not> spec_match ''dUNe'' [''scifi''] True ''read'' wb2"
  by (simp add: spec_match_def wb2_def)

theorem library_filter_spec_witness:
  "library_filter '' dUNe '' ''scifi'' True ''read'' [wb1, wb2] = Inr [wb1]"
proof -
  have wf: "list_all wf_book [wb1, wb2]"
    by (simp add: wf_book_def wb1_def wb2_def)
  show ?thesis
    unfolding library_filter_spec[OF wf] strip_q split_scifi
    by (simp add: sample_match sample_no_match)
qed

lemma cp_to_lower_char: "cp_to_lower (of_char c) = of_char (lower_char c)"
proof -
  define n where "n = (of_char c :: nat)"
  have n: "n < 256" by (simp add: n_def)
  have l: "lower_char c =
             (if (65 \<le> n \<and> n \<le> 90) \<or> (192 \<le> n \<and> n \<le> 222 \<and> n \<noteq> 215)
              then char_of (n + 32) else c)"
    by (simp add: lower_char_def Let_def n_def)
  have "(of_char (lower_char c) :: nat) =
          (if (65 \<le> n \<and> n \<le> 90) \<or> (192 \<le> n \<and> n \<le> 222 \<and> n \<noteq> 215)
           then n + 32 else n)"
    unfolding l using n by (auto simp: n_def[symmetric])
  moreover have "cp_to_lower n =
          (if (65 \<le> n \<and> n \<le> 90) \<or> (192 \<le> n \<and> n \<le> 222 \<and> n \<noteq> 215)
           then n + 32 else n)"
    using n by (auto simp: cp_to_lower_def)
  ultimately show ?thesis by (simp add: n_def)
qed

lemma lower_from_chars:
  "lower_from seen (map of_char s) = map of_char (lower s)"
proof (induction s arbitrary: seen)
  case Nil then show ?case by (simp add: lower_def)
next
  case (Cons c s)
  have "of_char c < (256::nat)" by simp
  then have "of_char c \<noteq> (0x3A3::nat)" by linarith
  with Cons show ?case by (simp add: lower_def cp_to_lower_char)
qed

text \<open>On strings of code points below 256, \<open>lower\<close> is \<^verbatim>\<open>str.lower\<close>.\<close>

lemma cp_lower_chars: "cp_lower (map of_char s) = map of_char (lower s)"
  by (simp add: cp_lower_def lower_from_chars)

lemma cp_is_space_char: "cp_is_space (of_char c) = is_space c"
proof -
  have "of_char c < (256::nat)" by simp
  then show ?thesis unfolding cp_is_space_def is_space_def Let_def by linarith
qed

lemma dropWhile_of_char:
  "dropWhile cp_is_space (map of_char s) = map of_char (dropWhile is_space s)"
  by (induction s) (simp_all add: cp_is_space_char)

lemma cp_strip_chars: "cp_strip (map of_char s) = map of_char (strip s)"
  by (simp add: cp_strip_def strip_def dropWhile_of_char rev_map)

lemma inj_of_char_nat: "inj (of_char :: char \<Rightarrow> nat)"
  by (rule injI) simp

lemma sublist_of_char:
  "sublist (map of_char xs) (map (of_char :: char \<Rightarrow> nat) ys) = sublist xs ys"
proof
  assume "sublist (map of_char xs) (map (of_char :: char \<Rightarrow> nat) ys)"
  from sublist_map_rightE[OF this] obtain xs' where
    x: "sublist xs' ys" "map (of_char :: char \<Rightarrow> nat) xs = map of_char xs'" by blast
  from x(2) have "xs = xs'" using inj_of_char_nat by (simp add: inj_map_eq_map)
  with x(1) show "sublist xs ys" by simp
next
  assume "sublist xs ys"
  then obtain ps ss where "ys = ps @ xs @ ss" by (auto simp: sublist_def)
  then have "map (of_char :: char \<Rightarrow> nat) ys = map of_char ps @ map of_char xs @ map of_char ss"
    by simp
  then show "sublist (map of_char xs) (map (of_char :: char \<Rightarrow> nat) ys)"
    unfolding sublist_def by blast
qed

text \<open>
  On a record whose title and author are strings of code points below 256, the text test
  of the embedding is the test on code points.
\<close>

lemma text_match_cp:
  assumes "b ''title'' = Some (PStr t)" and "b ''author'' = Some (PStr a)"
  shows "text_match (lower (strip q)) b
         = Inr (cp_text_test (map of_char q) (map of_char t) (map of_char a))"
proof -
  have "cp_text_test (map of_char q) (map of_char t) (map of_char a)
        = (sublist (lower (strip q)) (lower t) \<or> sublist (lower (strip q)) (lower a))"
    by (simp add: cp_text_test_def Let_def cp_strip_chars cp_lower_chars sublist_of_char)
  then show ?thesis
    using assms by (auto simp: text_match_def item_def py_lower_def py_or_def)
qed

text \<open>
  Claim C5, at a Greek title. The search input that is the one letter capital sigma
  (U+03A3) is a substring of the title U+039F U+0394 U+039F U+03A3 (omicron, delta,
  omicron, sigma, all capitals) as it stands, so it is one without regard to case. But
  \<^verbatim>\<open>str.lower\<close> turns the input into the small sigma U+03C3 and the last letter of the
  title into the final small sigma U+03C2, and the text test of the filter fails: a
  record with this title and an empty author is not returned.
\<close>

theorem lower_misses_final_sigma:
  "sublist [0x3A3 :: nat] [0x39F, 0x394, 0x39F, 0x3A3] \<and>
   cp_lower (cp_strip [0x3A3]) = [0x3C3] \<and>
   cp_lower [0x39F, 0x394, 0x39F, 0x3A3] = [0x3BF, 0x3B4, 0x3BF, 0x3C2] \<and>
   \<not> cp_text_test [0x3A3] [0x39F, 0x394, 0x39F, 0x3A3] []"
proof -
  have q: "cp_lower (cp_strip [0x3A3]) = [0x3C3]"
    by (simp add: cp_lower_def cp_strip_def cp_is_space_def final_sigma_def first_solid_def)
  have t: "cp_lower [0x39F, 0x394, 0x39F, 0x3A3] = [0x3BF, 0x3B4, 0x3BF, 0x3C2]"
    by (simp add: cp_lower_def cp_to_lower_def final_sigma_def first_solid_def
        cp_case_ignorable_def cp_cased_def)
  have a: "cp_lower [] = []" by (simp add: cp_lower_def)
  have s: "sublist [0x3A3 :: nat] [0x39F, 0x394, 0x39F, 0x3A3]"
    by (simp add: sublist_code prefix_code)
  have n: "\<not> cp_text_test [0x3A3] [0x39F, 0x394, 0x39F, 0x3A3] []"
    by (simp add: cp_text_test_def a q t sublist_code prefix_code)
  from s q t n show ?thesis by (intro conjI)
qed

subsection \<open>The seed list\<close>

lemma status_is_True: "status_is s b = Inr True \<longleftrightarrow> b ''status'' = Some (PStr s)"
  by (auto simp: status_is_def item_def split: option.splits)

lemma is_read_eq: "is_read = (\<lambda>b. b ''status'' = Some (PStr ''read''))"
  by (rule ext) (simp add: is_read_def)

lemma read_books_Inr: "read_books db = Inr rb \<Longrightarrow> rb = filter is_read db"
  unfolding read_books_def
  by (drule filter_err_Inr) (simp add: status_is_True is_read_eq)

lemma read_books_wf: "list_all wf_book db \<Longrightarrow> read_books db = Inr (filter is_read db)"
  unfolding read_books_def is_read_eq
  by (rule filter_err_total) (simp add: list_all_iff wf_status_is)

lemma map_err_Inr: "map_err f xs = Inr ys \<Longrightarrow> map Inr ys = map f xs"
proof (induction xs arbitrary: ys)
  case Nil then show ?case by simp
next
  case (Cons x xs) then show ?case by (auto split: sum.splits)
qed

lemma map_err_total:
  "(\<And>x. x \<in> set xs \<Longrightarrow> \<exists>y. f x = Inr y) \<Longrightarrow> \<exists>ys. map_err f xs = Inr ys"
proof (induction xs)
  case Nil then show ?case by simp
next
  case (Cons x xs)
  then obtain y ys where "f x = Inr y" "map_err f xs = Inr ys" by force
  then show ?case by simp
qed

lemma wf_seed_line: "wf_book b \<Longrightarrow> \<exists>l. seed_line ev b = Inr l"
proof -
  assume w: "wf_book b"
  then obtain t where "b ''title'' = Some (PStr t)"
    by (auto simp: wf_book_def split: option.splits pyval.splits)
  then show ?thesis
    by (simp add: seed_line_def wf_tags_iter[OF w] strs_of_strs item_def)
qed

lemma seed_lines_Inr:
  assumes "seed_lines ev db = Inr ls"
  shows "map Inr ls = map (seed_line ev) (take 40 (filter is_read db))"
proof -
  from assms obtain rb where rb: "read_books db = Inr rb"
    and m: "map_err (seed_line ev) (take 40 rb) = Inr ls"
    by (auto simp: seed_lines_def and_then_def split: sum.splits)
  from read_books_Inr[OF rb] map_err_Inr[OF m] show ?thesis by simp
qed

lemma seed_lines_wf:
  assumes "list_all wf_book db"
  shows "\<exists>ls. seed_lines ev db = Inr ls"
proof -
  have "\<exists>ys. map_err (seed_line ev) (take 40 (filter is_read db)) = Inr ys"
  proof (rule map_err_total)
    fix x assume "x \<in> set (take 40 (filter is_read db))"
    then have "x \<in> set db" by (auto dest: in_set_takeD)
    with assms have "wf_book x" by (simp add: list_all_iff)
    then show "\<exists>y. seed_line ev x = Inr y" by (rule wf_seed_line)
  qed
  then show ?thesis by (simp add: seed_lines_def read_books_wf[OF assms])
qed

lemma take_40_of_41: "length xs = 41 \<Longrightarrow> take 40 xs = butlast xs"
  by (simp add: butlast_conv_take)

text \<open>
  Claim C4. The seed list \<^verbatim>\<open>seed_lines\<close>, whenever it is built, holds the summary lines
  of exactly the first 40 records with status \<^verbatim>\<open>read\<close>, in collection order; it is built
  for every collection of records typed as the data model types them; and on a
  collection with 41 read records it holds the lines of the first 40, the last one left
  out.
\<close>

theorem seed_list_spec:
  "(\<forall>ls. seed_lines ev db = Inr ls \<longrightarrow>
        map Inr ls = map (seed_line ev) (take 40 (filter is_read db)) \<and>
        length ls = min 40 (length (filter is_read db))) \<and>
   (list_all wf_book db \<longrightarrow> (\<exists>ls. seed_lines ev db = Inr ls)) \<and>
   (\<forall>ls. seed_lines ev db = Inr ls \<and> length (filter is_read db) = 41 \<longrightarrow>
        length ls = 40 \<and> map Inr ls = map (seed_line ev) (butlast (filter is_read db)))"
proof (intro conjI allI impI)
  fix ls assume a: "seed_lines ev db = Inr ls"
  from seed_lines_Inr[OF a]
  show "map Inr ls = map (seed_line ev) (take 40 (filter is_read db))" .
  from arg_cong[OF seed_lines_Inr[OF a], of length]
  show "length ls = min 40 (length (filter is_read db))" by simp
next
  assume "list_all wf_book db"
  then show "\<exists>ls. seed_lines ev db = Inr ls" by (rule seed_lines_wf)
next
  fix ls assume a: "seed_lines ev db = Inr ls \<and> length (filter is_read db) = 41"
  from arg_cong[OF seed_lines_Inr[OF conjunct1[OF a]], of length] a
  show "length ls = 40" by simp
  from seed_lines_Inr[OF conjunct1[OF a]] take_40_of_41[OF conjunct2[OF a]]
  show "map Inr ls = map (seed_line ev) (butlast (filter is_read db))" by simp
qed

lemma wb_read: "is_read wb1" "\<not> is_read wb2" "is_read wb3"
  by (simp_all add: is_read_def wb1_def wb2_def wb3_def)

lemma wb_wf: "wf_book wb1" "wf_book wb2" "wf_book wb3"
  by (simp_all add: wf_book_def wb1_def wb2_def wb3_def)

lemma db41_read: "filter is_read db41 = replicate 40 wb1 @ [wb3]"
  by (simp add: db41_def wb_read)

lemma db41_wf: "list_all wf_book db41"
  by (simp add: db41_def wb_wf list_all_iff)

theorem seed_list_spec_witness:
  "\<exists>ls. seed_lines ev0 db41 = Inr ls \<and> length ls = 40 \<and>
         map Inr ls = replicate 40 (seed_line ev0 wb1)"
proof -
  note t = seed_list_spec[of ev0 db41]
  from t db41_wf obtain ls where ls: "seed_lines ev0 db41 = Inr ls" by blast
  have "length (filter is_read db41) = 41" by (simp add: db41_read)
  with t ls have "length ls = 40 \<and>
      map Inr ls = map (seed_line ev0) (butlast (filter is_read db41))" by blast
  then have "length ls = 40 \<and> map Inr ls = replicate 40 (seed_line ev0 wb1)"
    by (simp add: db41_read butlast_append)
  with ls show ?thesis by blast
qed

subsection \<open>Runs that keep the file\<close>

lemma show_msg_keeps [simp]:
  "data_file (show_msg m st) = data_file st"
  "can_edit (show_msg m st) = can_edit st"
  "reco_file (show_msg m st) = reco_file st"
  "rerun (show_msg m st) = rerun st"
  by (simp_all add: show_msg_def)

lemma generate_keeps [simp]:
  "data_file (generate ev n ft fo sb lines st) = data_file st"
  "can_edit (generate ev n ft fo sb lines st) = can_edit st"
  by (simp_all add: generate_def Let_def split: sum.splits)

lemma sidebar_keeps: "sidebar db st = Inr (db', st') \<Longrightarrow> db' = db \<and> st' = st"
  by (auto simp: sidebar_def split: sum.splits)

lemma tab_reco_keeps:
  "tab_reco ev g db st = Inr (db', st') \<Longrightarrow>
     db' = db \<and> data_file st' = data_file st \<and> can_edit st' = can_edit st"
  by (auto simp: tab_reco_def split: sum.splits if_splits option.splits)

lemma tab_add_idle:
  "tab_add ev None db st = Inr (db', st') \<Longrightarrow>
     db' = db \<and> data_file st' = data_file st \<and> can_edit st' = can_edit st"
  by (auto simp: tab_add_def split: if_splits)

lemma tab_reading_idle:
  "tab_reading ev None db st = Inr (db', st') \<Longrightarrow>
     db' = db \<and> data_file st' = data_file st \<and> can_edit st' = can_edit st"
  by (auto simp: tab_reading_def split: sum.splits if_splits)

lemma tab_library_idle:
  "tab_library ev q tf fo sp None db st = Inr (db', st') \<Longrightarrow>
     db' = db \<and> data_file st' = data_file st \<and> can_edit st' = can_edit st"
  by (auto simp: tab_library_def split: sum.splits if_splits)

lemma tab_add_view:
  "\<not> can_edit st \<Longrightarrow> tab_add ev fo db st = Inr (db', st') \<Longrightarrow>
     db' = db \<and> data_file st' = data_file st \<and> can_edit st' = can_edit st"
  by (auto simp: tab_add_def)

lemma tab_reading_view:
  "\<not> can_edit st \<Longrightarrow> tab_reading ev u db st = Inr (db', st') \<Longrightarrow>
     db' = db \<and> data_file st' = data_file st \<and> can_edit st' = can_edit st"
  by (auto simp: tab_reading_def split: sum.splits if_splits)

lemma tab_library_view:
  "\<not> can_edit st \<Longrightarrow> tab_library ev q tf fo sp a db st = Inr (db', st') \<Longrightarrow>
     db' = db \<and> data_file st' = data_file st \<and> can_edit st' = can_edit st"
  by (auto simp: tab_library_def split: sum.splits if_splits)

lemma tab_add_blank:
  "strip (f_title f) = [] \<Longrightarrow> tab_add ev (Some f) db st = Inr (db', st') \<Longrightarrow>
     db' = db \<and> data_file st' = data_file st \<and> can_edit st' = can_edit st"
  by (auto simp: tab_add_def split: sum.splits if_splits)

lemma part_keeps:
  assumes "\<And>db st db' st'. tab db st = Inr (db', st') \<Longrightarrow> can_edit st = c \<Longrightarrow>
             data_file st' = data_file st \<and> can_edit st' = can_edit st"
    and "can_edit (fst (snd r)) = c"
  shows "data_file (fst (snd (part tab r))) = data_file (fst (snd r)) \<and>
         can_edit (fst (snd (part tab r))) = c"
proof -
  obtain db st eo where r: "r = (db, st, eo)" by (cases r)
  show ?thesis
  proof (cases "eo = None \<and> \<not> rerun st")
    case False
    then show ?thesis using assms(2) by (cases eo) (auto simp: part_def r)
  next
    case True
    show ?thesis
    proof (cases "tab db st")
      case (Inl e)
      then show ?thesis using True assms(2) by (simp add: part_def r)
    next
      case (Inr p)
      obtain db' st' where p: "p = (db', st')" by (cases p)
      from assms(1)[of db st db' st'] Inr p assms(2)
      have "data_file st' = data_file st \<and> can_edit st' = can_edit st" by (simp add: r)
      then show ?thesis using True Inr p assms(2) by (simp add: part_def r)
    qed
  qed
qed

lemma login_keeps [simp]:
  "data_file (login ev pwd btn st) = data_file st"
  by (simp add: login_def)

lemma login_fail:
  "\<not> login_ok ev inp \<Longrightarrow> w_login_btn inp \<or> \<not> can_edit st \<Longrightarrow>
     \<not> can_edit (login ev (w_pwd inp) (w_login_btn inp) (st\<lparr>page := [], rerun := False\<rparr>))"
  by (auto simp: login_def login_ok_def)

lemma run_keeps:
  assumes a: "\<And>db st db' st'. tab_add ev (case w_action inp of Submit f \<Rightarrow> Some f | _ \<Rightarrow> None) db st = Inr (db', st') \<Longrightarrow>
               can_edit st = c \<Longrightarrow> data_file st' = data_file st \<and> can_edit st' = can_edit st"
    and b: "\<And>db st db' st'. tab_reading ev (case w_action inp of Update i new_prog \<Rightarrow> Some (i, new_prog) | _ \<Rightarrow> None) db st = Inr (db', st') \<Longrightarrow>
               can_edit st = c \<Longrightarrow> data_file st' = data_file st \<and> can_edit st' = can_edit st"
    and l: "\<And>db st db' st'. tab_library ev (w_q inp) (w_tag_filter inp) (w_fav_only inp)
                      (w_status_pick inp) (case w_action inp of Quick i a \<Rightarrow> Some (i, a) | _ \<Rightarrow> None) db st = Inr (db', st') \<Longrightarrow>
               can_edit st = c \<Longrightarrow> data_file st' = data_file st \<and> can_edit st' = can_edit st"
    and c: "can_edit (login ev (w_pwd inp) (w_login_btn inp) (st0\<lparr>page := [], rerun := False\<rparr>)) = c"
  shows "data_file (fst (run ev inp st0)) = data_file st0 \<and> can_edit (fst (run ev inp st0)) = c"
proof -
  let ?st = "login ev (w_pwd inp) (w_login_btn inp) (st0\<lparr>page := [], rerun := False\<rparr>)"
  let ?r0 = "(load_db ?st, ?st, None :: error option)"
  let ?r1 = "part sidebar ?r0"
  let ?r2 = "part (tab_add ev (case w_action inp of Submit f \<Rightarrow> Some f | _ \<Rightarrow> None)) ?r1"
  let ?r3 = "part (tab_reading ev (case w_action inp of Update i new_prog \<Rightarrow> Some (i, new_prog) | _ \<Rightarrow> None)) ?r2"
  let ?r4 = "part (tab_library ev (w_q inp) (w_tag_filter inp) (w_fav_only inp)
                      (w_status_pick inp) (case w_action inp of Quick i a \<Rightarrow> Some (i, a) | _ \<Rightarrow> None)) ?r3"
  let ?r5 = "part (tab_reco ev (case w_action inp of
                         Generate want_n focus_tags only_favs save_btn \<Rightarrow>
                           Some (want_n, focus_tags, only_favs, save_btn)
                       | _ \<Rightarrow> None)) ?r4"
  have 0: "data_file (fst (snd ?r0)) = data_file st0 \<and> can_edit (fst (snd ?r0)) = c"
    using c by simp
  have s: "\<And>db st db' st'. sidebar db st = Inr (db', st') \<Longrightarrow> can_edit st = c \<Longrightarrow>
             data_file st' = data_file st \<and> can_edit st' = can_edit st"
    using sidebar_keeps by blast
  have g: "\<And>db st db' st'. tab_reco ev (case w_action inp of
                         Generate want_n focus_tags only_favs save_btn \<Rightarrow>
                           Some (want_n, focus_tags, only_favs, save_btn)
                       | _ \<Rightarrow> None) db st = Inr (db', st') \<Longrightarrow> can_edit st = c \<Longrightarrow>
             data_file st' = data_file st \<and> can_edit st' = can_edit st"
    using tab_reco_keeps by blast
  have 1: "data_file (fst (snd ?r1)) = data_file st0 \<and> can_edit (fst (snd ?r1)) = c"
    using part_keeps[OF s conjunct2[OF 0]] 0 by simp
  have 2: "data_file (fst (snd ?r2)) = data_file st0 \<and> can_edit (fst (snd ?r2)) = c"
    using part_keeps[OF a conjunct2[OF 1]] 1 by simp
  have 3: "data_file (fst (snd ?r3)) = data_file st0 \<and> can_edit (fst (snd ?r3)) = c"
    using part_keeps[OF b conjunct2[OF 2]] 2 by simp
  have 4: "data_file (fst (snd ?r4)) = data_file st0 \<and> can_edit (fst (snd ?r4)) = c"
    using part_keeps[OF l conjunct2[OF 3]] 3 by simp
  have 5: "data_file (fst (snd ?r5)) = data_file st0 \<and> can_edit (fst (snd ?r5)) = c"
    using part_keeps[OF g conjunct2[OF 4]] 4 by simp
  have "fst (run ev inp st0) = fst (snd ?r5)"
    by (simp add: run_def Let_def)
  with 5 show ?thesis by simp
qed

lemma view_rules:
  "tab_add ev fo db st = Inr (db', st') \<Longrightarrow> can_edit st = False \<Longrightarrow>
     data_file st' = data_file st \<and> can_edit st' = can_edit st"
  "tab_reading ev u db st = Inr (db', st') \<Longrightarrow> can_edit st = False \<Longrightarrow>
     data_file st' = data_file st \<and> can_edit st' = can_edit st"
  "tab_library ev q tf fo' sp a db st = Inr (db', st') \<Longrightarrow> can_edit st = False \<Longrightarrow>
     data_file st' = data_file st \<and> can_edit st' = can_edit st"
  using tab_add_view[of st ev fo db db' st'] tab_reading_view[of st ev u db db' st']
    tab_library_view[of st ev q tf fo' sp a db db' st'] by simp_all

lemma run_view:
  assumes "\<not> login_ok ev inp" and "w_login_btn inp \<or> \<not> can_edit st"
  shows "data_file (fst (run ev inp st)) = data_file st \<and> can_edit (fst (run ev inp st)) = False"
proof (rule run_keeps)
  show "can_edit (login ev (w_pwd inp) (w_login_btn inp) (st\<lparr>page := [], rerun := False\<rparr>)) = False"
    using login_fail[OF assms] by simp
qed (rule view_rules; assumption)+

lemma runs_view:
  "list_all (\<lambda>x. \<not> login_ok (fst x) (snd x)) later \<Longrightarrow> \<not> can_edit st \<Longrightarrow>
     data_file (runs later st) = data_file st \<and> \<not> can_edit (runs later st)"
proof (induction later arbitrary: st)
  case Nil then show ?case by simp
next
  case (Cons x xs)
  from Cons.prems have n: "\<not> login_ok (fst x) (snd x)" by simp
  from run_view[OF n] Cons.prems(2)
  have 1: "data_file (fst (run (fst x) (snd x) st)) = data_file st"
    and 2: "\<not> can_edit (fst (run (fst x) (snd x) st))" by auto
  from Cons.prems have "list_all (\<lambda>x. \<not> login_ok (fst x) (snd x)) xs" by simp
  from Cons.IH[OF this 2] 1 show ?case by simp
qed

text \<open>
  Claim C9. A run whose Login button was pressed with a password that is not the
  configured secret ends with the write capability off and the file as it was; and
  after it, however many runs follow with whatever buttons pressed (add or update,
  progress update, quick edit, delete), as long as none of them is a login with the
  secret, the capability stays off and the file stays as it was.
\<close>

theorem wrong_password_blocks_writes:
  "w_login_btn inp \<and> \<not> login_ok ev inp \<longrightarrow>
     \<not> can_edit (fst (run ev inp st)) \<and>
     data_file (fst (run ev inp st)) = data_file st \<and>
     (\<forall>later. list_all (\<lambda>x. \<not> login_ok (fst x) (snd x)) later \<longrightarrow>
        \<not> can_edit (runs later (fst (run ev inp st))) \<and>
        data_file (runs later (fst (run ev inp st))) = data_file st)"
proof (intro impI)
  assume a: "w_login_btn inp \<and> \<not> login_ok ev inp"
  then have r: "data_file (fst (run ev inp st)) = data_file st"
    "\<not> can_edit (fst (run ev inp st))"
    using run_view[of ev inp st] by auto
  show "\<not> can_edit (fst (run ev inp st)) \<and>
     data_file (fst (run ev inp st)) = data_file st \<and>
     (\<forall>later. list_all (\<lambda>x. \<not> login_ok (fst x) (snd x)) later \<longrightarrow>
        \<not> can_edit (runs later (fst (run ev inp st))) \<and>
        data_file (runs later (fst (run ev inp st))) = data_file st)"
    using r runs_view[OF _ r(2)] by auto
qed

theorem wrong_password_blocks_writes_witness:
  "\<not> can_edit (fst (run ev0 inp_wrong st_admin)) \<and>
   data_file (runs [(ev0, inp_delete)] (fst (run ev0 inp_wrong st_admin))) = Some [wb1]"
proof -
  have 1: "w_login_btn inp_wrong \<and> \<not> login_ok ev0 inp_wrong"
    by (simp add: inp_wrong_def inp_idle_def login_ok_def ev0_def)
  have 2: "list_all (\<lambda>x. \<not> login_ok (fst x) (snd x)) [(ev0, inp_delete)]"
    by (simp add: inp_delete_def inp_idle_def login_ok_def)
  from wrong_password_blocks_writes[of inp_wrong ev0 st_admin] 1 2
  have "\<not> can_edit (fst (run ev0 inp_wrong st_admin)) \<and>
        data_file (runs [(ev0, inp_delete)] (fst (run ev0 inp_wrong st_admin)))
          = data_file st_admin" by blast
  then show ?thesis by (simp add: st_admin_def)
qed

lemma run_submit_blank:
  assumes "w_action inp = Submit f" and "strip (f_title f) = []"
  shows "data_file (fst (run ev inp st0)) = data_file st0"
proof -
  have "data_file (fst (run ev inp st0)) = data_file st0 \<and>
        can_edit (fst (run ev inp st0))
          = can_edit (login ev (w_pwd inp) (w_login_btn inp) (st0\<lparr>page := [], rerun := False\<rparr>))"
  proof (rule run_keeps)
    show "can_edit (login ev (w_pwd inp) (w_login_btn inp) (st0\<lparr>page := [], rerun := False\<rparr>))
          = can_edit (login ev (w_pwd inp) (w_login_btn inp) (st0\<lparr>page := [], rerun := False\<rparr>))" ..
  qed (use assms tab_add_blank tab_reading_idle tab_library_idle in auto)
  then show ?thesis by simp
qed

text \<open>
  Claim C8. A submission of the form whose title is empty or white space only shows
  the notice that a title is required and returns the collection as it was; the run of
  the script in which it is submitted leaves the file as it was.
\<close>

theorem blank_title_rejected:
  "strip (f_title f) = [] \<longrightarrow>
     (\<forall>init. can_edit st \<and> form_init db f = Inr init \<longrightarrow>
        tab_add ev (Some f) db st = Inr (db, show_msg (Error ''Title is required.'') st)) \<and>
     (\<forall>inp st0. w_action inp = Submit f \<longrightarrow>
        data_file (fst (run ev inp st0)) = data_file st0)"
  using run_submit_blank by (auto simp: tab_add_def)

theorem blank_title_rejected_witness:
  "tab_add ev0 (Some f_blank) [wb1] st_admin
     = Inr ([wb1], show_msg (Error ''Title is required.'') st_admin) \<and>
   data_file (fst (run ev0 (inp_idle\<lparr>w_action := Submit f_blank\<rparr>) st_admin)) = Some [wb1]"
proof -
  have 1: "strip (f_title f_blank) = []"
    by (simp add: f_blank_def strip_def is_space_def)
  have 2: "can_edit st_admin \<and> form_init [wb1] f_blank = Inr Map.empty"
    by (simp add: st_admin_def form_init_def selected_id_def f_blank_def)
  have 3: "w_action (inp_idle\<lparr>w_action := Submit f_blank\<rparr>) = Submit f_blank" by simp
  from blank_title_rejected[of f_blank st_admin "[wb1]" ev0] 1 2 3
  have "tab_add ev0 (Some f_blank) [wb1] st_admin
          = Inr ([wb1], show_msg (Error ''Title is required.'') st_admin) \<and>
        data_file (fst (run ev0 (inp_idle\<lparr>w_action := Submit f_blank\<rparr>) st_admin))
          = data_file st_admin" by blast
  then show ?thesis by (simp add: st_admin_def)
qed

subsection \<open>The recommendation call\<close>

lemma run_generate:
  assumes "w_action inp = Generate n ft fo sb"
  shows "data_file (fst (run ev inp st0)) = data_file st0"
proof -
  have "data_file (fst (run ev inp st0)) = data_file st0 \<and>
        can_edit (fst (run ev inp st0))
          = can_edit (login ev (w_pwd inp) (w_login_btn inp) (st0\<lparr>page := [], rerun := False\<rparr>))"
  proof (rule run_keeps)
    show "can_edit (login ev (w_pwd inp) (w_login_btn inp) (st0\<lparr>page := [], rerun := False\<rparr>))
          = can_edit (login ev (w_pwd inp) (w_login_btn inp) (st0\<lparr>page := [], rerun := False\<rparr>))" ..
  qed (use assms tab_add_idle tab_reading_idle tab_library_idle in auto)
  then show ?thesis by simp
qed

lemma map_err_length: "map_err f xs = Inr ys \<Longrightarrow> length ys = length xs"
  using arg_cong[OF map_err_Inr, of f xs ys length] by simp

lemma tab_reco_failure:
  assumes s: "seed_lines ev db = Inr lines" and n: "lines \<noteq> []"
    and i: "invoke ev (prompt ev n ft (seeds_of fo lines)) = Inl e"
  shows "tab_reco ev (Some (n, ft, fo, sb)) db st
         = Inr (db, show_msg (Error (''Error: '' @ e)) st)"
proof -
  from s obtain rb where rb: "read_books db = Inr rb"
    and m: "map_err (seed_line ev) (take 40 rb) = Inr lines"
    by (auto simp: seed_lines_def and_then_def split: sum.splits)
  from map_err_length[OF m] n have "rb \<noteq> []" by auto
  then show ?thesis by (simp add: tab_reco_def rb m generate_def i)
qed

text \<open>
  Claim C3. When the call of the text-generation service raises, the Generate handler
  returns normally: it shows the notice \<^verbatim>\<open>Error: \<close> with the message of the exception
  and gives back the collection and the state as they were, the page apart; and a run in
  which Generate is pressed leaves the file as it was.
\<close>

theorem service_failure_reported:
  "(\<forall>lines e. seed_lines ev db = Inr lines \<and> lines \<noteq> [] \<and>
              invoke ev (prompt ev n ft (seeds_of fo lines)) = Inl e \<longrightarrow>
        tab_reco ev (Some (n, ft, fo, sb)) db st
          = Inr (db, show_msg (Error (''Error: '' @ e)) st)) \<and>
   (\<forall>inp st0. w_action inp = Generate n ft fo sb \<longrightarrow>
        data_file (fst (run ev inp st0)) = data_file st0)"
  using tab_reco_failure run_generate by blast

theorem service_failure_reported_witness:
  "tab_reco ev0 (Some (10, [], True, False)) [wb1] st_admin
     = Inr ([wb1], show_msg (Error ''Error: quota exceeded'') st_admin) \<and>
   data_file (fst (run ev0 (inp_idle\<lparr>w_action := Generate 10 [] True False\<rparr>) st_admin))
     = Some [wb1]"
proof -
  have "list_all wf_book [wb1]" by (simp add: wb_wf)
  from seed_lines_wf[OF this] obtain lines where l: "seed_lines ev0 [wb1] = Inr lines" by blast
  from arg_cong[OF seed_lines_Inr[OF l], of length] have n: "lines \<noteq> []"
    by (auto simp: wb_read)
  have i: "invoke ev0 (prompt ev0 10 [] (seeds_of True lines)) = Inl ''quota exceeded''"
    by (simp add: ev0_def)
  have a: "w_action (inp_idle\<lparr>w_action := Generate 10 [] True False\<rparr>) = Generate 10 [] True False"
    by simp
  from service_failure_reported[of ev0 "[wb1]" 10 "[]" True False st_admin] l n i a
  have "tab_reco ev0 (Some (10, [], True, False)) [wb1] st_admin
          = Inr ([wb1], show_msg (Error (''Error: '' @ ''quota exceeded'')) st_admin) \<and>
        data_file (fst (run ev0 (inp_idle\<lparr>w_action := Generate 10 [] True False\<rparr>) st_admin))
          = data_file st_admin" by blast
  then show ?thesis by (simp add: st_admin_def)
qed

subsection \<open>The writes and the record invariants\<close>

lemma form_book_fields:
  "form_book ev init f ''tags'' = Some (PList (map PStr (split_tags (f_tags f))))"
  "form_book ev init f ''progress'' = Some (PInt (f_progress f))"
  "form_book ev init f ''rating'' = Some (if f_rating f \<noteq> 0 then PInt (f_rating f) else PNone)"
  by (simp_all add: form_book_def Let_def split: option.splits)

lemma normalize_form_book:
  "\<exists>m. normalize ev (b ++ form_book ev init f) = Inr m \<and>
       m ''rating'' = Some (if f_rating f \<noteq> 0 then PInt (f_rating f) else PNone) \<and>
       record_inv m"
proof -
  let ?bk = "b ++ form_book ev init f"
  let ?ts = "spec_tags (split_tags (f_tags f))"
  let ?p = "max 0 (min 100 (f_progress f))"
  let ?m = "finish (defaults (uuid_dflt ev) (now_created ev) (now_updated ev) ++ ?bk) ?ts ?p"
  have t: "norm_tags (get_or ?bk ''tags'' (PList [])) = Inr ?ts"
    unfolding norm_tags_Inr
    by (rule exI[of _ "split_tags (f_tags f)"]) (simp add: get_or_def form_book_fields)
  have p: "norm_progress (get_or ?bk ''progress'' (PInt 0)) = Inr ?p"
    by (simp add: get_or_def form_book_fields norm_progress_def py_or_def)
  have 1: "normalize ev ?bk = Inr ?m"
    unfolding normalize_def ensure_defaults_Inr using t p by blast
  have 2: "?m ''rating'' = Some (if f_rating f \<noteq> 0 then PInt (f_rating f) else PNone)"
    by (simp add: finish_other form_book_fields)
  have 3: "progress_inv ?m"
    by (cases "100 \<le> ?p") (auto simp: progress_inv_def finish_def Let_def)
  have 4: "tags_inv ?m"
    by (simp add: tags_inv_def finish_tags spec_tags_props)
  from 1 2 3 4 show ?thesis by (simp add: record_inv_def)
qed

lemma normalize_new_book:
  "\<exists>m. normalize ev (form_book ev init f) = Inr m \<and>
       m ''rating'' = Some (if f_rating f \<noteq> 0 then PInt (f_rating f) else PNone) \<and>
       record_inv m"
  using normalize_form_book[of ev Map.empty init f] by simp

lemma update_selected_cases:
  "find_by_id db sid = Inr x \<Longrightarrow>
   \<exists>db'. update_selected ev sid (form_book ev init f) db = Inr db' \<and>
     ((x = None \<and> db' = db) \<or>
      (\<exists>i b'. i < length db \<and> (db ! i) ''id'' = Some (PStr sid) \<and> db' = db[i := b'] \<and>
         b' ''rating'' = Some (if f_rating f \<noteq> 0 then PInt (f_rating f) else PNone) \<and>
         record_inv b'))"
proof (induction db arbitrary: x)
  case Nil then show ?case by simp
next
  case (Cons b bs)
  from Cons.prems obtain v where v: "b ''id'' = Some v"
    by (auto simp: item_def split: option.splits)
  show ?case
  proof (cases "v = PStr sid")
    case True
    from normalize_form_book[of ev b init f] obtain m where
      m: "normalize ev (b ++ form_book ev init f) = Inr m"
        "m ''rating'' = Some (if f_rating f \<noteq> 0 then PInt (f_rating f) else PNone)"
        "record_inv m" by blast
    have "0 < length (b # bs) \<and> ((b # bs) ! 0) ''id'' = Some (PStr sid) \<and>
          m # bs = (b # bs)[0 := m] \<and>
          m ''rating'' = Some (if f_rating f \<noteq> 0 then PInt (f_rating f) else PNone) \<and>
          record_inv m"
      using m v True by simp
    then have "\<exists>i b'. i < length (b # bs) \<and> ((b # bs) ! i) ''id'' = Some (PStr sid) \<and>
          m # bs = (b # bs)[i := b'] \<and>
          b' ''rating'' = Some (if f_rating f \<noteq> 0 then PInt (f_rating f) else PNone) \<and>
          record_inv b'" by blast
    then show ?thesis using m v True by (simp add: item_def)
  next
    case False
    with Cons.prems v have f: "find_by_id bs sid = Inr x" by (simp add: item_def)
    from Cons.IH[OF f] obtain db' where
      u: "update_selected ev sid (form_book ev init f) bs = Inr db'"
      and c: "(x = None \<and> db' = bs) \<or>
      (\<exists>i b'. i < length bs \<and> (bs ! i) ''id'' = Some (PStr sid) \<and> db' = bs[i := b'] \<and>
         b' ''rating'' = Some (if f_rating f \<noteq> 0 then PInt (f_rating f) else PNone) \<and>
         record_inv b')" by blast
    from c show ?thesis
    proof
      assume "x = None \<and> db' = bs"
      then show ?thesis using u v False by (simp add: item_def)
    next
      assume "\<exists>i b'. i < length bs \<and> (bs ! i) ''id'' = Some (PStr sid) \<and> db' = bs[i := b'] \<and>
         b' ''rating'' = Some (if f_rating f \<noteq> 0 then PInt (f_rating f) else PNone) \<and>
         record_inv b'"
      then obtain i b' where i: "i < length bs" "(bs ! i) ''id'' = Some (PStr sid)"
        "db' = bs[i := b']"
        "b' ''rating'' = Some (if f_rating f \<noteq> 0 then PInt (f_rating f) else PNone)"
        "record_inv b'" by blast
      then have "Suc i < length (b # bs) \<and> ((b # bs) ! Suc i) ''id'' = Some (PStr sid) \<and>
          b # db' = (b # bs)[Suc i := b'] \<and>
          b' ''rating'' = Some (if f_rating f \<noteq> 0 then PInt (f_rating f) else PNone) \<and>
          record_inv b'" by simp
      then have "\<exists>j b'. j < length (b # bs) \<and> ((b # bs) ! j) ''id'' = Some (PStr sid) \<and>
          b # db' = (b # bs)[j := b'] \<and>
          b' ''rating'' = Some (if f_rating f \<noteq> 0 then PInt (f_rating f) else PNone) \<and>
          record_inv b'" by blast
      then show ?thesis using u v False by (simp add: item_def)
    qed
  qed
qed

lemma form_init_found:
  "form_init db f = Inr init \<Longrightarrow> selected_id f = Some sid \<Longrightarrow> \<exists>x. find_by_id db sid = Inr x"
  by (auto simp: form_init_def split: sum.splits)

lemma tab_add_save:
  assumes c: "can_edit st" and t: "strip (f_title f) \<noteq> []" and i: "form_init db f = Inr init"
  shows "\<exists>db' st'. tab_add ev (Some f) db st = Inr (db', st') \<and> data_file st' = Some db' \<and>
           (case selected_id f of
              None \<Rightarrow> (\<exists>b'. db' = db @ [b'] \<and> record_inv b' \<and>
                         b' ''rating'' = Some (if f_rating f \<noteq> 0 then PInt (f_rating f) else PNone))
            | Some sid \<Rightarrow>
                (find_by_id db sid = Inr None \<and> db' = db) \<or>
                (\<exists>i b'. i < length db \<and> (db ! i) ''id'' = Some (PStr sid) \<and>
                   db' = db[i := b'] \<and> record_inv b' \<and>
                   b' ''rating'' = Some (if f_rating f \<noteq> 0 then PInt (f_rating f) else PNone)))"
proof (cases "selected_id f")
  case None
  from normalize_new_book[of ev init f] obtain m where
    m: "normalize ev (form_book ev init f) = Inr m" "record_inv m"
      "m ''rating'' = Some (if f_rating f \<noteq> 0 then PInt (f_rating f) else PNone)" by blast
  then show ?thesis using c t i None
    by (simp add: tab_add_def Let_def save_db_def)
next
  case (Some sid)
  from form_init_found[OF i Some] obtain x where x: "find_by_id db sid = Inr x" by blast
  from update_selected_cases[OF x, of ev init f] obtain db' where
    u: "update_selected ev sid (form_book ev init f) db = Inr db'"
    and d: "(x = None \<and> db' = db) \<or>
      (\<exists>i b'. i < length db \<and> (db ! i) ''id'' = Some (PStr sid) \<and> db' = db[i := b'] \<and>
         b' ''rating'' = Some (if f_rating f \<noteq> 0 then PInt (f_rating f) else PNone) \<and>
         record_inv b')" by blast
  have r: "tab_add ev (Some f) db st
           = Inr (db', save_db db' (show_msg (Success ''Record updated'') st))"
    using c t i Some u by (simp add: tab_add_def Let_def)
  have "(find_by_id db sid = Inr None \<and> db' = db) \<or>
        (\<exists>i b'. i < length db \<and> (db ! i) ''id'' = Some (PStr sid) \<and>
           db' = db[i := b'] \<and> record_inv b' \<and>
           b' ''rating'' = Some (if f_rating f \<noteq> 0 then PInt (f_rating f) else PNone))"
    using d x by blast
  then show ?thesis using r Some by (simp add: save_db_def)
qed




lemma wb5_status: "wb5 ''status'' = Some (PStr ''read'')" "wb5 ''progress'' = Some (PInt 100)"
  "wb5 ''tags'' = Some (PList [PStr ''scifi''])"
  by (simp_all add: wb5_def)

lemma wb5_inv: "record_inv wb5"
  by (simp add: record_inv_def progress_inv_def tags_inv_def wb5_status)

lemma split_quick: "split_tags ''scifi,classic,scifi'' = [''scifi'', ''classic'', ''scifi'']"
  by (simp add: split_tags_def strip_def is_space_def)

lemma wb5_edited_fields:
  "wb5_edited ''status'' = Some (PStr ''to_read'')"
  "wb5_edited ''progress'' = Some (PInt 100)"
  "wb5_edited ''tags'' = Some (PList [PStr ''scifi'', PStr ''classic'', PStr ''scifi''])"
  by (simp_all add: wb5_edited_def quick_edit_def split_quick wb5_status)

lemma run_quick: "load_db (fst (run ev0 inp_quick st5)) = [wb5_edited]"
proof -
  let ?st = "st5\<lparr>page := [], rerun := False\<rparr>"
  have r0: "part sidebar ([wb5], ?st, None) = ([wb5], ?st, None)"
    by (simp add: part_def sidebar_def status_is_def item_def wb5_status)
  have r1: "part (tab_add ev0 None) ([wb5], ?st, None) = ([wb5], ?st, None)"
    by (simp add: part_def tab_add_def st5_def)
  let ?st2 = "show_msg (Info ''No books are marked as 'reading'. Use the Add/Update tab to set one.'') ?st"
  have r2: "part (tab_reading ev0 None) ([wb5], ?st, None) = ([wb5], ?st2, None)"
    by (simp add: part_def tab_reading_def status_is_def item_def wb5_status)
  have lf: "library_filter [] [] False ''All'' [wb5] = Inr [wb5]"
    by (simp add: library_filter_def)
  let ?st3 = "show_msg (Success ''Saved.'') (save_db [wb5_edited] ?st2)"
  have r3: "part (tab_library ev0 [] [] False ''All''
                   (Some (0, QSave False ''to_read'' 7 ''scifi,classic,scifi'')))
              ([wb5], ?st2, None) = ([wb5_edited], ?st3, None)"
    by (simp add: part_def tab_library_def lf wb5_edited_def Let_def st5_def)
  have rb: "read_books [wb5_edited] = Inr []"
    by (simp add: read_books_def status_is_def item_def wb5_edited_fields)
  have r4: "fst (snd (part (tab_reco ev0 None) ([wb5_edited], ?st3, None)))
            = show_msg (Info ''Add some books marked as 'read' to get recommendations.'') ?st3"
    by (simp add: part_def tab_reco_def rb save_db_def)
  have l: "login ev0 (w_pwd inp_quick) (w_login_btn inp_quick) ?st = ?st"
    by (simp add: login_def inp_quick_def inp_idle_def)
  have d: "load_db ?st = [wb5]" by (simp add: load_db_def st5_def)
  have "fst (run ev0 inp_quick st5)
        = show_msg (Info ''Add some books marked as 'read' to get recommendations.'') ?st3"
    unfolding run_def Let_def l d
    by (simp add: inp_quick_def inp_idle_def r0 r1 r2 r3 r4)
  then show ?thesis by (simp add: load_db_def save_db_def show_msg_def)
qed

lemma list_all_update: "list_all P xs \<Longrightarrow> P x \<Longrightarrow> list_all P (xs[i := x])"
  unfolding list_all_iff using set_update_subset_insert[of xs i x] by auto

lemma tab_add_inv:
  assumes inv: "list_all record_inv db" and r: "tab_add ev fo db st = Inr (db', st')"
  shows "list_all record_inv db'"
proof (cases "can_edit st \<and> (\<exists>f init. fo = Some f \<and> form_init db f = Inr init \<and>
                                strip (f_title f) \<noteq> [])")
  case False
  with r have "db' = db"
    by (auto simp: tab_add_def split: if_splits option.splits sum.splits)
  with inv show ?thesis by simp
next
  case True
  then obtain f init where f: "fo = Some f" "form_init db f = Inr init"
    "strip (f_title f) \<noteq> []" "can_edit st" by blast
  from tab_add_save[OF f(4) f(3) f(2), of ev] r f(1)
  have "case selected_id f of
          None \<Rightarrow> (\<exists>b'. db' = db @ [b'] \<and> record_inv b' \<and>
                     b' ''rating'' = Some (if f_rating f \<noteq> 0 then PInt (f_rating f) else PNone))
        | Some sid \<Rightarrow>
            (find_by_id db sid = Inr None \<and> db' = db) \<or>
            (\<exists>i b'. i < length db \<and> (db ! i) ''id'' = Some (PStr sid) \<and>
               db' = db[i := b'] \<and> record_inv b' \<and>
               b' ''rating'' = Some (if f_rating f \<noteq> 0 then PInt (f_rating f) else PNone))"
    by auto
  then show ?thesis using inv
    by (cases "selected_id f") (auto simp: list_all_update)
qed

lemma set_progress_inv:
  assumes "record_inv b" and "0 \<le> n" and "n \<le> 100"
  shows "record_inv (set_progress ev n b)"
proof -
  have "progress_inv (set_progress ev n b)"
    using assms(2,3) by (auto simp: progress_inv_def set_progress_def Let_def)
  moreover have "tags_inv (set_progress ev n b)"
    using assms(1) by (simp add: record_inv_def tags_inv_def set_progress_def Let_def)
  ultimately show ?thesis by (simp add: record_inv_def)
qed

lemma tab_reading_inv:
  assumes inv: "list_all record_inv db" and n: "0 \<le> new_prog" "new_prog \<le> 100"
    and r: "tab_reading ev (Some (i, new_prog)) db st = Inr (db', st')"
  shows "list_all record_inv db'"
proof (cases "db' = db")
  case True with inv show ?thesis by simp
next
  case False
  with r have i: "i < length db" and d: "db' = db[i := set_progress ev new_prog (db ! i)]"
    by (auto simp: tab_reading_def Let_def split: sum.splits if_splits)
  from inv i have "record_inv (db ! i)" by (simp add: list_all_length)
  from set_progress_inv[OF this n] inv show ?thesis unfolding d by (rule list_all_update[rotated])
qed

text \<open>
  Claim C1, at the Quick Edit handler. The Add / Update form and the progress update
  keep the record invariants (\<open>tab_add_inv\<close>, \<open>tab_reading_inv\<close>); Quick Edit does
  not. On a file whose one record satisfies them (progress 100, status \<^verbatim>\<open>read\<close>, tags
  \<^verbatim>\<open>["scifi"]\<close>), the run in which an admin saves the Quick Edit of that record with
  status \<^verbatim>\<open>to_read\<close> and tags \<^verbatim>\<open>scifi,classic,scifi\<close> writes a record whose tags are
  \<^verbatim>\<open>["scifi", "classic", "scifi"]\<close>, neither sorted nor free of duplicates, and whose
  status is \<^verbatim>\<open>to_read\<close> at progress 100.
\<close>

theorem quick_edit_breaks_invariants:
  "list_all record_inv (load_db st5) \<and>
   map tags_of (load_db (fst (run ev0 inp_quick st5))) = [[''scifi'', ''classic'', ''scifi'']] \<and>
   map is_read (load_db (fst (run ev0 inp_quick st5))) = [False] \<and>
   map progress_inv (load_db (fst (run ev0 inp_quick st5))) = [False] \<and>
   map tags_inv (load_db (fst (run ev0 inp_quick st5))) = [False]"
  unfolding run_quick
  by (simp add: load_db_def st5_def wb5_inv tags_of_def is_read_def progress_inv_def tags_inv_def
      wb5_edited_fields)

end
